theory Spec2Isabelle
  imports Complex_Main "HOL-Library.Word" "HOL-Library.Multiset" "HOL-Library.Sublist"
    "HOL-Library.Char_ord" "HOL-Library.List_Lexorder" "HOL-Library.Product_Lexorder"
begin

section \<open>The byte-counting writer and the table of contents\<close>

text \<open>
  The printers of \<^verbatim>\<open>backup/metadata_globals.go\<close> write statement text to a
  \<^verbatim>\<open>*utils.FileWithByteCount\<close> and record byte ranges in a \<^verbatim>\<open>*utils.TOC\<close>.
  Both types are declared in package \<^verbatim>\<open>utils\<close>, outside the files at hand; the printers
  only read the field \<^verbatim>\<open>ByteCount\<close> and call \<^verbatim>\<open>MustPrintf\<close>, \<^verbatim>\<open>MustPrintln\<close> and
  \<^verbatim>\<open>AddMetadataEntry\<close>.

  A \<^typ>\<open>char\<close> is one byte, so a \<^typ>\<open>string\<close> is a byte sequence and \<^const>\<open>length\<close>
  is the encoded byte length. \<^verbatim>\<open>ByteCount\<close> is a \<^verbatim>\<open>uint64\<close> in the source
  (\<^verbatim>\<open>start := uint64(0)\<close> is assigned from it); no section stream reaches
  \<open>2 ^ 64\<close> bytes, so the counter is a \<^typ>\<open>nat\<close>.
\<close>

record FileWithByteCount =
  Written :: string
  ByteCount :: nat

text \<open>
  Modelled from the spec: the append operation of \<^verbatim>\<open>FileWithByteCount\<close>
  (\<^verbatim>\<open>MustPrintf\<close>, \<^verbatim>\<open>MustPrintln\<close>), which ``advances the offset by the exact encoded byte
  length written''. The argument is the already formatted text. A failing write panics
  (\<^verbatim>\<open>Must\<close>); the model describes the runs in which the underlying writer accepts
  every write.
\<close>

definition MustPrintf :: "FileWithByteCount \<Rightarrow> string \<Rightarrow> FileWithByteCount" where
  "MustPrintf f s = f\<lparr>Written := Written f @ s, ByteCount := ByteCount f + length s\<rparr>"

definition MustPrintln :: "FileWithByteCount \<Rightarrow> string \<Rightarrow> FileWithByteCount" where
  "MustPrintln f s = MustPrintf f (s @ ''\<newline>'')"

record MetadataEntry =
  Schema :: string
  Name :: string
  ObjectType :: string
  StartByte :: nat
  EndByte :: nat

type_synonym TOC = "MetadataEntry list"

text \<open>
  Modelled from the spec: \<^verbatim>\<open>TOC.AddMetadataEntry(schema, name, objectType, start, file)\<close>,
  the spec's \<^verbatim>\<open>AddEntry(section, schema, name, kind, start, end)\<close>. The section is the one
  the file belongs to and the end offset is the file's byte count at the time of the call;
  the entries of one section are kept in the order of the calls.
\<close>

definition AddMetadataEntry ::
  "TOC \<Rightarrow> string \<Rightarrow> string \<Rightarrow> string \<Rightarrow> nat \<Rightarrow> FileWithByteCount \<Rightarrow> TOC" where
  "AddMetadataEntry toc schema name objectType start file =
     toc @ [\<lparr>Schema = schema, Name = name, ObjectType = objectType,
             StartByte = start, EndByte = ByteCount file\<rparr>]"

section \<open>Collaborators outside the files at hand\<close>

text \<open>The value of a Go \<^verbatim>\<open>float64\<close>, as far as the printers compare it.\<close>

datatype float64 = NaN | NegInf | Finite rat | PosInf

fun float_gt :: "float64 \<Rightarrow> rat \<Rightarrow> bool" where
  "float_gt NaN c = False"
| "float_gt NegInf c = False"
| "float_gt (Finite r) c = (c < r)"
| "float_gt PosInf c = True"

text \<open>
  What the printers call and do not define: \<^verbatim>\<open>PrintObjectMetadata\<close> (the text of the
  ownership, comment and privilege statements it writes for a metadata record, a name and
  an object kind), \<^verbatim>\<open>strconv.ParseFloat\<close> (\<^const>\<open>None\<close> when it returns an error),
  \<^verbatim>\<open>strings.ToUpper\<close>, and the answers of \<^verbatim>\<open>connection.Version.Before("5")\<close> and
  \<^verbatim>\<open>connection.Version.AtLeast("5")\<close>. The type \<^typ>\<open>'m\<close> is \<^verbatim>\<open>ObjectMetadata\<close>.
\<close>

record 'm externals =
  ObjectMetadataText :: "'m \<Rightarrow> string \<Rightarrow> string \<Rightarrow> string"
  ParseFloat :: "string \<Rightarrow> float64 option"
  ToUpper :: "string \<Rightarrow> string"
  VersionBefore5 :: bool
  VersionAtLeast5 :: bool

text \<open>
  \<^verbatim>\<open>MetadataMap\<close> is \<^verbatim>\<open>map[uint32]ObjectMetadata\<close>; indexing a Go map with an absent
  key yields the zero value, so the map is read as a total function.
\<close>

type_synonym oid = "32 word"
type_synonym 'm MetadataMap = "oid \<Rightarrow> 'm"

definition PrintObjectMetadata ::
  "'m externals \<Rightarrow> FileWithByteCount \<Rightarrow> 'm \<Rightarrow> string \<Rightarrow> string \<Rightarrow> FileWithByteCount" where
  "PrintObjectMetadata ext file md name kind =
     MustPrintf file (ObjectMetadataText ext md name kind)"

datatype error = ParseFloatError string

subsection \<open>Formatting\<close>

text \<open>\<^verbatim>\<open>%d\<close> of \<^verbatim>\<open>fmt\<close>: decimal digits, with a minus sign for a negative number.\<close>

function digits :: "nat \<Rightarrow> string" where
  "digits n = (if n < 10 then [char_of (48 + n)]
               else digits (n div 10) @ [char_of (48 + n mod 10)])"
  by pat_completeness auto
termination
  by (relation "measure id") auto

definition fmt_d :: "int \<Rightarrow> string" where
  "fmt_d i = (if i < 0 then ''-'' @ digits (nat (- i)) else digits (nat i))"

text \<open>\<^verbatim>\<open>strings.Join\<close>.\<close>

fun Join :: "string list \<Rightarrow> string \<Rightarrow> string" where
  "Join [] sep = ''''"
| "Join [x] sep = x"
| "Join (x # y # ys) sep = x @ sep @ Join (y # ys) sep"

section \<open>The printers of metadata\_globals.go\<close>

type_synonym out = "FileWithByteCount \<times> TOC"

subsection \<open>Session GUCs\<close>

record SessionGUCs =
  ClientEncoding :: string
  DefaultWithOids :: string

definition printUniversalSessionGUCs :: "out \<Rightarrow> SessionGUCs \<Rightarrow> out" where
  "printUniversalSessionGUCs st gucs =
     (let (metadataFile, toc) = st;
          start = ByteCount metadataFile;
          metadataFile = MustPrintf metadataFile
            (''SET statement_timeout = 0;\<newline>'' @
             ''SET check_function_bodies = false;\<newline>'' @
             ''SET client_min_messages = error;\<newline>'' @
             ''SET client_encoding = '' @ [CHR 0x27] @ ClientEncoding gucs @ [CHR 0x27] @ '';\<newline>'' @
             ''SET standard_conforming_strings = on;\<newline>'' @
             ''SET default_with_oids = '' @ DefaultWithOids gucs @ '';\<newline>'')
      in (metadataFile, AddMetadataEntry toc '''' '''' ''SESSION GUCS'' start metadataFile))"

definition print4OnlySessionGUCs :: "out \<Rightarrow> out" where
  "print4OnlySessionGUCs st =
     (let (metadataFile, toc) = st;
          start = ByteCount metadataFile;
          metadataFile = MustPrintf metadataFile ''SET gp_strict_xml_parse = off;\<newline>''
      in (metadataFile, AddMetadataEntry toc '''' '''' ''GPDB4 SESSION GUCS'' start metadataFile))"

definition PrintSessionGUCs :: "'m externals \<Rightarrow> out \<Rightarrow> SessionGUCs \<Rightarrow> out" where
  "PrintSessionGUCs ext st gucs =
     (let st = printUniversalSessionGUCs st gucs
      in if VersionBefore5 ext then print4OnlySessionGUCs st else st)"

subsection \<open>Database\<close>

text \<open>
  The structs \<^verbatim>\<open>Database\<close>, \<^verbatim>\<open>ResourceQueue\<close>, \<^verbatim>\<open>ResourceGroup\<close>, \<^verbatim>\<open>Role\<close>,
  \<^verbatim>\<open>TimeConstraint\<close>, \<^verbatim>\<open>RoleMember\<close> and \<^verbatim>\<open>Tablespace\<close> are declared in another file
  of the package. The records below have the fields the printers read, with the types
  their use fixes: \<^verbatim>\<open>%s\<close> a string, \<^verbatim>\<open>%d\<close> an integer, a condition a boolean, the key
  of a \<^verbatim>\<open>MetadataMap\<close> a \<^verbatim>\<open>uint32\<close>.
\<close>

record Database =
  Oid :: oid
  Name :: string
  Tablespace :: string

definition PrintCreateDatabaseStatement ::
  "'m externals \<Rightarrow> out \<Rightarrow> Database \<Rightarrow> 'm MetadataMap \<Rightarrow> out" where
  "PrintCreateDatabaseStatement ext st db dbMetadata =
     (let (globalFile, toc) = st;
          dbname = Database.Name db;
          start = ByteCount globalFile;
          globalFile = MustPrintf globalFile (''\<newline>\<newline>CREATE DATABASE '' @ dbname);
          globalFile = (if Database.Tablespace db \<noteq> ''pg_default''
                        then MustPrintf globalFile ('' TABLESPACE '' @ Database.Tablespace db)
                        else globalFile);
          globalFile = MustPrintf globalFile '';'';
          toc = AddMetadataEntry toc '''' dbname ''DATABASE'' start globalFile;
          start = ByteCount globalFile;
          globalFile = PrintObjectMetadata ext globalFile (dbMetadata (Database.Oid db)) dbname ''DATABASE''
      in if ByteCount globalFile > start
         then (globalFile, AddMetadataEntry toc '''' dbname ''DATABASE METADATA'' start globalFile)
         else (globalFile, toc))"

text \<open>The body of the loop of \<^verbatim>\<open>PrintDatabaseGUCs\<close>.\<close>

definition printDatabaseGUC :: "string \<Rightarrow> out \<Rightarrow> string \<Rightarrow> out" where
  "printDatabaseGUC dbname st guc =
     (let (globalFile, toc) = st;
          start = ByteCount globalFile;
          globalFile = MustPrintf globalFile (''\<newline>ALTER DATABASE '' @ dbname @ '' '' @ guc @ '';'')
      in (globalFile, AddMetadataEntry toc '''' dbname ''DATABASE GUC'' start globalFile))"

definition PrintDatabaseGUCs :: "out \<Rightarrow> string list \<Rightarrow> string \<Rightarrow> out" where
  "PrintDatabaseGUCs st gucs dbname = foldl (printDatabaseGUC dbname) st gucs"

subsection \<open>Resource queues\<close>

record ResourceQueue =
  Oid :: oid
  Name :: string
  ActiveStatements :: int
  MaxCost :: string
  CostOvercommit :: bool
  MinCost :: string
  Priority :: string
  MemoryLimit :: string

text \<open>
  The attribute list of one queue. \<^verbatim>\<open>utils.CheckError\<close> panics on the error of
  \<^verbatim>\<open>strconv.ParseFloat\<close>; \<^verbatim>\<open>MaxCost\<close> is parsed and checked before \<^verbatim>\<open>MinCost\<close>.
\<close>

definition resQueueAttributes :: "'m externals \<Rightarrow> ResourceQueue \<Rightarrow> error + string list" where
  "resQueueAttributes ext resQueue =
     (let attributes = [];
          attributes = (if ActiveStatements resQueue \<noteq> - 1
                        then attributes @ [''ACTIVE_STATEMENTS='' @ fmt_d (ActiveStatements resQueue)]
                        else attributes)
      in case ParseFloat ext (MaxCost resQueue) of
           None \<Rightarrow> Inl (ParseFloatError (MaxCost resQueue))
         | Some maxCostFloat \<Rightarrow>
          (let attributes = (if float_gt maxCostFloat (- 1)
                             then attributes @ [''MAX_COST='' @ MaxCost resQueue]
                             else attributes);
               attributes = (if CostOvercommit resQueue
                             then attributes @ [''COST_OVERCOMMIT=TRUE'']
                             else attributes)
           in case ParseFloat ext (MinCost resQueue) of
                None \<Rightarrow> Inl (ParseFloatError (MinCost resQueue))
              | Some minCostFloat \<Rightarrow>
               (let attributes = (if float_gt minCostFloat 0
                                  then attributes @ [''MIN_COST='' @ MinCost resQueue]
                                  else attributes);
                    attributes = (if Priority resQueue \<noteq> ''medium''
                                  then attributes @ [''PRIORITY='' @ ToUpper ext (Priority resQueue)]
                                  else attributes);
                    attributes = (if ResourceQueue.MemoryLimit resQueue \<noteq> ''-1''
                                  then attributes @ [''MEMORY_LIMIT='' @ [CHR 0x27] @
                                         ResourceQueue.MemoryLimit resQueue @ [CHR 0x27]]
                                  else attributes)
                in Inr attributes)))"

definition resQueueAction :: "ResourceQueue \<Rightarrow> string" where
  "resQueueAction resQueue =
     (let action = ''CREATE''
      in if ResourceQueue.Name resQueue = ''pg_default'' then ''ALTER'' else action)"

text \<open>The body of the loop of \<^verbatim>\<open>PrintCreateResourceQueueStatements\<close>.\<close>

definition printResourceQueue ::
  "'m externals \<Rightarrow> 'm MetadataMap \<Rightarrow> out \<Rightarrow> ResourceQueue \<Rightarrow> error + out" where
  "printResourceQueue ext resQueueMetadata st resQueue =
     (let (globalFile, toc) = st;
          start = ByteCount globalFile
      in case resQueueAttributes ext resQueue of
           Inl e \<Rightarrow> Inl e
         | Inr attributes \<Rightarrow>
          (let action = resQueueAction resQueue;
               globalFile = MustPrintf globalFile
                 (''\<newline>\<newline>'' @ action @ '' RESOURCE QUEUE '' @ ResourceQueue.Name resQueue @
                  '' WITH ('' @ Join attributes '', '' @ '');'');
               globalFile = PrintObjectMetadata ext globalFile
                 (resQueueMetadata (ResourceQueue.Oid resQueue)) (ResourceQueue.Name resQueue)
                 ''RESOURCE QUEUE''
           in Inr (globalFile,
                   AddMetadataEntry toc '''' (ResourceQueue.Name resQueue) ''RESOURCE QUEUE''
                     start globalFile)))"

fun PrintCreateResourceQueueStatements ::
  "'m externals \<Rightarrow> out \<Rightarrow> ResourceQueue list \<Rightarrow> 'm MetadataMap \<Rightarrow> error + out" where
  "PrintCreateResourceQueueStatements ext st [] resQueueMetadata = Inr st"
| "PrintCreateResourceQueueStatements ext st (resQueue # resQueues) resQueueMetadata =
     (case printResourceQueue ext resQueueMetadata st resQueue of
        Inl e \<Rightarrow> Inl e
      | Inr st' \<Rightarrow> PrintCreateResourceQueueStatements ext st' resQueues resQueueMetadata)"

subsection \<open>Resource groups\<close>

record ResourceGroup =
  Oid :: oid
  Name :: string
  CPURateLimit :: int
  MemoryLimit :: int
  MemorySharedQuota :: int
  MemorySpillRatio :: int
  Concurrency :: int

record resGroupStruct =
  setting :: string
  val :: int

text \<open>The body of the inner loop, over the five properties of a built-in group.\<close>

definition printResGroupProperty ::
  "'m externals \<Rightarrow> 'm MetadataMap \<Rightarrow> ResourceGroup \<Rightarrow> out \<Rightarrow> resGroupStruct \<Rightarrow> out" where
  "printResGroupProperty ext resGroupMetadata resGroup st property =
     (let (globalFile, toc) = st;
          start = ByteCount globalFile;
          globalFile = MustPrintf globalFile
            (''\<newline>\<newline>ALTER RESOURCE GROUP '' @ ResourceGroup.Name resGroup @ '' SET '' @
             setting property @ '' '' @ fmt_d (val property) @ '';'');
          globalFile = PrintObjectMetadata ext globalFile
            (resGroupMetadata (ResourceGroup.Oid resGroup)) (ResourceGroup.Name resGroup)
            ''RESOURCE GROUP''
      in (globalFile,
          AddMetadataEntry toc '''' (ResourceGroup.Name resGroup) ''RESOURCE GROUP''
            start globalFile))"

definition resGroupList :: "ResourceGroup \<Rightarrow> resGroupStruct list" where
  "resGroupList resGroup =
     [\<lparr>setting = ''CPU_RATE_LIMIT'', val = CPURateLimit resGroup\<rparr>,
      \<lparr>setting = ''MEMORY_LIMIT'', val = ResourceGroup.MemoryLimit resGroup\<rparr>,
      \<lparr>setting = ''MEMORY_SHARED_QUOTA'', val = MemorySharedQuota resGroup\<rparr>,
      \<lparr>setting = ''MEMORY_SPILL_RATIO'', val = MemorySpillRatio resGroup\<rparr>,
      \<lparr>setting = ''CONCURRENCY'', val = Concurrency resGroup\<rparr>]"

definition resGroupCreateText :: "ResourceGroup \<Rightarrow> string" where
  "resGroupCreateText resGroup =
     (let attributes = [];
          attributes = attributes @ [''CPU_RATE_LIMIT='' @ fmt_d (CPURateLimit resGroup)];
          attributes = attributes @ [''MEMORY_LIMIT='' @ fmt_d (ResourceGroup.MemoryLimit resGroup)];
          attributes = attributes @ [''MEMORY_SHARED_QUOTA='' @ fmt_d (MemorySharedQuota resGroup)];
          attributes = attributes @ [''MEMORY_SPILL_RATIO='' @ fmt_d (MemorySpillRatio resGroup)];
          attributes = attributes @ [''CONCURRENCY='' @ fmt_d (Concurrency resGroup)]
      in ''\<newline>\<newline>CREATE RESOURCE GROUP '' @ ResourceGroup.Name resGroup @
         '' WITH ('' @ Join attributes '', '' @ '');'')"

text \<open>
  The body of the outer loop of \<^verbatim>\<open>PrintCreateResourceGroupStatements\<close>. Its
  \<^verbatim>\<open>start := uint64(0)\<close> is overwritten on both branches before it is read.
\<close>

definition printResourceGroup ::
  "'m externals \<Rightarrow> 'm MetadataMap \<Rightarrow> out \<Rightarrow> ResourceGroup \<Rightarrow> out" where
  "printResourceGroup ext resGroupMetadata st resGroup =
     (if ResourceGroup.Name resGroup = ''default_group'' \<or> ResourceGroup.Name resGroup = ''admin_group''
      then foldl (printResGroupProperty ext resGroupMetadata resGroup) st (resGroupList resGroup)
      else
        (let (globalFile, toc) = st;
             start = ByteCount globalFile;
             globalFile = MustPrintf globalFile (resGroupCreateText resGroup);
             globalFile = PrintObjectMetadata ext globalFile
               (resGroupMetadata (ResourceGroup.Oid resGroup)) (ResourceGroup.Name resGroup)
               ''RESOURCE GROUP''
         in (globalFile,
             AddMetadataEntry toc '''' (ResourceGroup.Name resGroup) ''RESOURCE GROUP''
               start globalFile)))"

definition PrintCreateResourceGroupStatements ::
  "'m externals \<Rightarrow> out \<Rightarrow> ResourceGroup list \<Rightarrow> 'm MetadataMap \<Rightarrow> out" where
  "PrintCreateResourceGroupStatements ext st resGroups resGroupMetadata =
     foldl (printResourceGroup ext resGroupMetadata) st resGroups"

subsection \<open>Roles\<close>

record TimeConstraint =
  StartDay :: int
  StartTime :: string
  EndDay :: int
  EndTime :: string

record Role =
  Oid :: oid
  Name :: string
  Super :: bool
  Inherit :: bool
  CreateRole :: bool
  CreateDB :: bool
  CanLogin :: bool
  ConnectionLimit :: int
  Password :: string
  ValidUntil :: string
  ResQueue :: string
  ResGroup :: string
  Createrexthttp :: bool
  Createrextgpfd :: bool
  Createwextgpfd :: bool
  Createrexthdfs :: bool
  Createwexthdfs :: bool
  TimeConstraints :: "TimeConstraint list"

definition roleAttrs :: "'m externals \<Rightarrow> Role \<Rightarrow> string list" where
  "roleAttrs ext role =
     (let attrs = [];
          attrs = attrs @ [if Super role then ''SUPERUSER'' else ''NOSUPERUSER''];
          attrs = attrs @ [if Inherit role then ''INHERIT'' else ''NOINHERIT''];
          attrs = attrs @ [if CreateRole role then ''CREATEROLE'' else ''NOCREATEROLE''];
          attrs = attrs @ [if CreateDB role then ''CREATEDB'' else ''NOCREATEDB''];
          attrs = attrs @ [if CanLogin role then ''LOGIN'' else ''NOLOGIN''];
          attrs = (if ConnectionLimit role \<noteq> - 1
                   then attrs @ [''CONNECTION LIMIT '' @ fmt_d (ConnectionLimit role)]
                   else attrs);
          attrs = (if Password role \<noteq> ''''
                   then attrs @ [''PASSWORD '' @ [CHR 0x27] @ Password role @ [CHR 0x27]]
                   else attrs);
          attrs = (if ValidUntil role \<noteq> ''''
                   then attrs @ [''VALID UNTIL '' @ [CHR 0x27] @ ValidUntil role @ [CHR 0x27]]
                   else attrs);
          attrs = attrs @ [''RESOURCE QUEUE '' @ ResQueue role];
          attrs = (if VersionAtLeast5 ext
                   then attrs @ [''RESOURCE GROUP '' @ ResGroup role]
                   else attrs);
          attrs = (if Createrexthttp role
                   then attrs @ [''CREATEEXTTABLE (protocol='' @ [CHR 0x27] @ ''http'' @ [CHR 0x27] @ '')'']
                   else attrs);
          attrs = (if Createrextgpfd role
                   then attrs @ [''CREATEEXTTABLE (protocol='' @ [CHR 0x27] @ ''gpfdist'' @ [CHR 0x27] @
                                 '', type='' @ [CHR 0x27] @ ''readable'' @ [CHR 0x27] @ '')'']
                   else attrs);
          attrs = (if Createwextgpfd role
                   then attrs @ [''CREATEEXTTABLE (protocol='' @ [CHR 0x27] @ ''gpfdist'' @ [CHR 0x27] @
                                 '', type='' @ [CHR 0x27] @ ''writable'' @ [CHR 0x27] @ '')'']
                   else attrs);
          attrs = (if Createrexthdfs role
                   then attrs @ [''CREATEEXTTABLE (protocol='' @ [CHR 0x27] @ ''gphdfs'' @ [CHR 0x27] @
                                 '', type='' @ [CHR 0x27] @ ''readable'' @ [CHR 0x27] @ '')'']
                   else attrs);
          attrs = (if Createwexthdfs role
                   then attrs @ [''CREATEEXTTABLE (protocol='' @ [CHR 0x27] @ ''gphdfs'' @ [CHR 0x27] @
                                 '', type='' @ [CHR 0x27] @ ''writable'' @ [CHR 0x27] @ '')'']
                   else attrs)
      in attrs)"

definition printTimeConstraint :: "Role \<Rightarrow> FileWithByteCount \<Rightarrow> TimeConstraint \<Rightarrow> FileWithByteCount" where
  "printTimeConstraint role globalFile timeConstraint =
     MustPrintf globalFile
       (''\<newline>ALTER ROLE '' @ Role.Name role @ '' DENY BETWEEN DAY '' @ fmt_d (StartDay timeConstraint) @
        '' TIME '' @ [CHR 0x27] @ StartTime timeConstraint @ [CHR 0x27] @
        '' AND DAY '' @ fmt_d (EndDay timeConstraint) @
        '' TIME '' @ [CHR 0x27] @ EndTime timeConstraint @ [CHR 0x27] @ '';'')"

text \<open>The body of the loop of \<^verbatim>\<open>PrintCreateRoleStatements\<close>.\<close>

definition printRole :: "'m externals \<Rightarrow> 'm MetadataMap \<Rightarrow> out \<Rightarrow> Role \<Rightarrow> out" where
  "printRole ext roleMetadata st role =
     (let (globalFile, toc) = st;
          start = ByteCount globalFile;
          attrs = roleAttrs ext role;
          globalFile = MustPrintf globalFile
            (''\<newline>\<newline>CREATE ROLE '' @ Role.Name role @ '';\<newline>ALTER ROLE '' @ Role.Name role @
             '' WITH '' @ Join attrs '' '' @ '';'');
          globalFile = (if length (TimeConstraints role) \<noteq> 0
                        then foldl (printTimeConstraint role) globalFile (TimeConstraints role)
                        else globalFile);
          globalFile = PrintObjectMetadata ext globalFile
            (roleMetadata (Role.Oid role)) (Role.Name role) ''ROLE''
      in (globalFile, AddMetadataEntry toc '''' (Role.Name role) ''ROLE'' start globalFile))"

definition PrintCreateRoleStatements ::
  "'m externals \<Rightarrow> out \<Rightarrow> Role list \<Rightarrow> 'm MetadataMap \<Rightarrow> out" where
  "PrintCreateRoleStatements ext st roles roleMetadata =
     foldl (printRole ext roleMetadata) st roles"

subsection \<open>Role memberships\<close>

record RoleMember =
  Role :: string
  Member :: string
  Grantor :: string
  IsAdmin :: bool

text \<open>The body of the loop of \<^verbatim>\<open>PrintRoleMembershipStatements\<close>.\<close>

definition printRoleMember :: "out \<Rightarrow> RoleMember \<Rightarrow> out" where
  "printRoleMember st roleMember =
     (let (globalFile, toc) = st;
          start = ByteCount globalFile;
          globalFile = MustPrintf globalFile
            (''\<newline>GRANT '' @ RoleMember.Role roleMember @ '' TO '' @ Member roleMember);
          globalFile = (if IsAdmin roleMember
                        then MustPrintf globalFile '' WITH ADMIN OPTION''
                        else globalFile);
          globalFile = MustPrintf globalFile ('' GRANTED BY '' @ Grantor roleMember @ '';'')
      in (globalFile, AddMetadataEntry toc '''' (Member roleMember) ''ROLE GRANT'' start globalFile))"

text \<open>
  \<^verbatim>\<open>globalFile.MustPrintln("\n")\<close> comes before the loop and before any \<^verbatim>\<open>start\<close> is
  read: it writes a line feed and the line feed \<^verbatim>\<open>Println\<close> adds.
\<close>

definition PrintRoleMembershipStatements :: "out \<Rightarrow> RoleMember list \<Rightarrow> out" where
  "PrintRoleMembershipStatements st roleMembers =
     (let (globalFile, toc) = st;
          globalFile = MustPrintln globalFile ''\<newline>''
      in foldl printRoleMember (globalFile, toc) roleMembers)"

subsection \<open>Tablespaces\<close>

record Tablespace =
  Oid :: oid
  Tablespace :: string
  Filespace :: string

text \<open>The body of the loop of \<^verbatim>\<open>PrintCreateTablespaceStatements\<close>.\<close>

definition printTablespace :: "'m externals \<Rightarrow> 'm MetadataMap \<Rightarrow> out \<Rightarrow> Tablespace \<Rightarrow> out" where
  "printTablespace ext tablespaceMetadata st tablespace =
     (let (globalFile, toc) = st;
          start = ByteCount globalFile;
          globalFile = MustPrintf globalFile
            (''\<newline>\<newline>CREATE TABLESPACE '' @ Tablespace.Tablespace tablespace @
             '' FILESPACE '' @ Filespace tablespace @ '';'');
          globalFile = PrintObjectMetadata ext globalFile
            (tablespaceMetadata (Tablespace.Oid tablespace)) (Tablespace.Tablespace tablespace)
            ''TABLESPACE''
      in (globalFile,
          AddMetadataEntry toc '''' (Tablespace.Tablespace tablespace) ''TABLESPACE''
            start globalFile))"

definition PrintCreateTablespaceStatements ::
  "'m externals \<Rightarrow> out \<Rightarrow> Tablespace list \<Rightarrow> 'm MetadataMap \<Rightarrow> out" where
  "PrintCreateTablespaceStatements ext st tablespaces tablespaceMetadata =
     foldl (printTablespace ext tablespaceMetadata) st tablespaces"

section \<open>Reading a section through its table of contents\<close>

text \<open>
  A file is consistent when its counter is the number of bytes written to it, as it is
  for a new file and after every \<^const>\<open>MustPrintf\<close>.
\<close>

definition wf_file :: "FileWithByteCount \<Rightarrow> bool" where
  "wf_file f \<longleftrightarrow> ByteCount f = length (Written f)"

text \<open>The bytes of the stream that lie in the range of an entry.\<close>

definition range_text :: "FileWithByteCount \<Rightarrow> MetadataEntry \<Rightarrow> string" where
  "range_text f e = take (EndByte e - StartByte e) (drop (StartByte e) (Written f))"

text \<open>
  \<open>tiles a es b\<close>: the ranges of \<open>es\<close>, in order, are adjacent, start at \<open>a\<close> and end at
  \<open>b\<close>; every range has its start at or before its end.
\<close>

fun tiles :: "nat \<Rightarrow> TOC \<Rightarrow> nat \<Rightarrow> bool" where
  "tiles a [] b = (a = b)"
| "tiles a (e # es) b = (StartByte e = a \<and> a \<le> EndByte e \<and> tiles (EndByte e) es b)"

text \<open>What a printer added to the table of contents and to the stream.\<close>

definition new_entries :: "out \<Rightarrow> out \<Rightarrow> TOC" where
  "new_entries st st' = drop (length (snd st)) (snd st')"

definition new_bytes :: "out \<Rightarrow> out \<Rightarrow> string" where
  "new_bytes st st' = drop (length (Written (fst st))) (Written (fst st'))"

text \<open>
  \<open>extends_tiling gap st st'\<close>: from \<open>st\<close> to \<open>st'\<close> the stream and the table of contents
  only grew, the file is consistent, and the new entries tile the new bytes but for the
  first \<open>gap\<close> of them: their ranges are adjacent, the first starts \<open>gap\<close> bytes after the
  old end of the stream, the last ends at the new end, every range lies in the stream
  (the text in it is as long as the end offset minus the start offset), and the texts in
  the ranges, concatenated, are the new bytes after the gap.
\<close>

definition extends_tiling :: "nat \<Rightarrow> out \<Rightarrow> out \<Rightarrow> bool" where
  "extends_tiling gap st st' \<longleftrightarrow>
     Written (fst st') = Written (fst st) @ new_bytes st st' \<and>
     snd st' = snd st @ new_entries st st' \<and>
     wf_file (fst st') \<and>
     gap \<le> length (new_bytes st st') \<and>
     tiles (ByteCount (fst st) + gap) (new_entries st st') (ByteCount (fst st')) \<and>
     list_all (\<lambda>e. length (range_text (fst st') e) = EndByte e - StartByte e) (new_entries st st') \<and>
     concat (map (range_text (fst st')) (new_entries st st')) = drop gap (new_bytes st st')"

text \<open>
  A section is covered when its stream is exactly the concatenation of the recorded
  ranges, from offset 0 to the last end offset.
\<close>

definition section_covered :: "out \<Rightarrow> bool" where
  "section_covered st \<longleftrightarrow>
     wf_file (fst st) \<and>
     tiles 0 (snd st) (ByteCount (fst st)) \<and>
     concat (map (range_text (fst st)) (snd st)) = Written (fst st)"

text \<open>A new file and an empty table of contents.\<close>

definition empty_out :: out where
  "empty_out = (\<lparr>Written = '''', ByteCount = 0\<rparr>, [])"

text \<open>The name and the kind under which an entry is recorded.\<close>

definition entry_label :: "MetadataEntry \<Rightarrow> string \<times> string" where
  "entry_label e = (MetadataEntry.Name e, ObjectType e)"

text \<open>The byte range of an entry.\<close>

definition entry_range :: "MetadataEntry \<Rightarrow> nat \<times> nat" where
  "entry_range e = (StartByte e, EndByte e)"

text \<open>
  What a printer recorded, entry by entry: the length of the range of each new entry
  with the text that lies in it, and the label of each new entry with the length of its
  range.
\<close>

definition recorded_texts :: "out \<Rightarrow> out \<Rightarrow> (nat \<times> string) list" where
  "recorded_texts st st' =
     map (\<lambda>e. (EndByte e - StartByte e, range_text (fst st') e)) (new_entries st st')"


text \<open>A text with its byte length.\<close>

definition sized :: "string \<Rightarrow> nat \<times> string" where
  "sized t = (length t, t)"

section \<open>The text written for one object\<close>

text \<open>
  The primary statement each printer writes for one object, as one string: the
  concatenation of the texts of its \<^verbatim>\<open>MustPrintf\<close> calls up to the call of
  \<^verbatim>\<open>PrintObjectMetadata\<close>. The annotation is the text \<^verbatim>\<open>PrintObjectMetadata\<close> writes.
\<close>

definition universalSessionGUCsText :: "SessionGUCs \<Rightarrow> string" where
  "universalSessionGUCsText gucs =
     ''SET statement_timeout = 0;\<newline>'' @
     ''SET check_function_bodies = false;\<newline>'' @
     ''SET client_min_messages = error;\<newline>'' @
     ''SET client_encoding = '' @ [CHR 0x27] @ ClientEncoding gucs @ [CHR 0x27] @ '';\<newline>'' @
     ''SET standard_conforming_strings = on;\<newline>'' @
     ''SET default_with_oids = '' @ DefaultWithOids gucs @ '';\<newline>''"

definition gpdb4SessionGUCsText :: string where
  "gpdb4SessionGUCsText = ''SET gp_strict_xml_parse = off;\<newline>''"

definition databaseText :: "Database \<Rightarrow> string" where
  "databaseText db =
     ''\<newline>\<newline>CREATE DATABASE '' @ Database.Name db @
     (if Database.Tablespace db \<noteq> ''pg_default'' then '' TABLESPACE '' @ Database.Tablespace db else '''') @
     '';''"

definition databaseGUCText :: "string \<Rightarrow> string \<Rightarrow> string" where
  "databaseGUCText dbname guc = ''\<newline>ALTER DATABASE '' @ dbname @ '' '' @ guc @ '';''"

definition resQueueText :: "ResourceQueue \<Rightarrow> string list \<Rightarrow> string" where
  "resQueueText resQueue attributes =
     ''\<newline>\<newline>'' @ resQueueAction resQueue @ '' RESOURCE QUEUE '' @ ResourceQueue.Name resQueue @
     '' WITH ('' @ Join attributes '', '' @ '');''"

definition resGroupPropertyText :: "ResourceGroup \<Rightarrow> resGroupStruct \<Rightarrow> string" where
  "resGroupPropertyText resGroup property =
     ''\<newline>\<newline>ALTER RESOURCE GROUP '' @ ResourceGroup.Name resGroup @ '' SET '' @
     setting property @ '' '' @ fmt_d (val property) @ '';''"

definition timeConstraintText :: "Role \<Rightarrow> TimeConstraint \<Rightarrow> string" where
  "timeConstraintText role timeConstraint =
     ''\<newline>ALTER ROLE '' @ Role.Name role @ '' DENY BETWEEN DAY '' @ fmt_d (StartDay timeConstraint) @
     '' TIME '' @ [CHR 0x27] @ StartTime timeConstraint @ [CHR 0x27] @
     '' AND DAY '' @ fmt_d (EndDay timeConstraint) @
     '' TIME '' @ [CHR 0x27] @ EndTime timeConstraint @ [CHR 0x27] @ '';''"

definition roleText :: "'m externals \<Rightarrow> Role \<Rightarrow> string" where
  "roleText ext role =
     ''\<newline>\<newline>CREATE ROLE '' @ Role.Name role @ '';\<newline>ALTER ROLE '' @ Role.Name role @
     '' WITH '' @ Join (roleAttrs ext role) '' '' @ '';'' @
     concat (map (timeConstraintText role) (TimeConstraints role))"

definition roleMemberText :: "RoleMember \<Rightarrow> string" where
  "roleMemberText roleMember =
     ''\<newline>GRANT '' @ RoleMember.Role roleMember @ '' TO '' @ Member roleMember @
     (if IsAdmin roleMember then '' WITH ADMIN OPTION'' else '''') @
     '' GRANTED BY '' @ Grantor roleMember @ '';''"

definition tablespaceText :: "Tablespace \<Rightarrow> string" where
  "tablespaceText tablespace =
     ''\<newline>\<newline>CREATE TABLESPACE '' @ Tablespace.Tablespace tablespace @
     '' FILESPACE '' @ Filespace tablespace @ '';''"

text \<open>The entry recorded for \<open>n\<close> bytes written from offset \<open>start\<close>.\<close>

definition entry :: "string \<Rightarrow> string \<Rightarrow> nat \<Rightarrow> nat \<Rightarrow> MetadataEntry" where
  "entry name kind start n =
     \<lparr>Schema = '''', Name = name, ObjectType = kind, StartByte = start, EndByte = start + n\<rparr>"

section \<open>Printers as lists of chunks\<close>

text \<open>
  A chunk is one call of \<^verbatim>\<open>AddMetadataEntry\<close> together with the text written between
  the reading of \<^verbatim>\<open>start\<close> and that call. \<open>layout a cs\<close> are the entries recorded when
  the chunks \<open>cs\<close> are written one after the other from offset \<open>a\<close>, and \<open>emit st cs\<close> is
  the state after writing them.
\<close>

record chunk =
  chunk_name :: string
  chunk_kind :: string
  chunk_text :: string

fun layout :: "nat \<Rightarrow> chunk list \<Rightarrow> TOC" where
  "layout a [] = []"
| "layout a (c # cs) =
     entry (chunk_name c) (chunk_kind c) a (length (chunk_text c)) #
     layout (a + length (chunk_text c)) cs"

definition emit :: "out \<Rightarrow> chunk list \<Rightarrow> out" where
  "emit st cs =
     (MustPrintf (fst st) (concat (map chunk_text cs)), snd st @ layout (ByteCount (fst st)) cs)"

definition sessionGUCsChunks :: "'m externals \<Rightarrow> SessionGUCs \<Rightarrow> chunk list" where
  "sessionGUCsChunks ext gucs =
     \<lparr>chunk_name = '''', chunk_kind = ''SESSION GUCS'', chunk_text = universalSessionGUCsText gucs\<rparr> #
     (if VersionBefore5 ext
      then [\<lparr>chunk_name = '''', chunk_kind = ''GPDB4 SESSION GUCS'', chunk_text = gpdb4SessionGUCsText\<rparr>]
      else [])"

definition databaseAnnotation :: "'m externals \<Rightarrow> 'm MetadataMap \<Rightarrow> Database \<Rightarrow> string" where
  "databaseAnnotation ext md db =
     ObjectMetadataText ext (md (Database.Oid db)) (Database.Name db) ''DATABASE''"

definition databaseChunks :: "'m externals \<Rightarrow> 'm MetadataMap \<Rightarrow> Database \<Rightarrow> chunk list" where
  "databaseChunks ext md db =
     \<lparr>chunk_name = Database.Name db, chunk_kind = ''DATABASE'', chunk_text = databaseText db\<rparr> #
     (if databaseAnnotation ext md db \<noteq> ''''
      then [\<lparr>chunk_name = Database.Name db, chunk_kind = ''DATABASE METADATA'',
              chunk_text = databaseAnnotation ext md db\<rparr>]
      else [])"

definition databaseGUCChunk :: "string \<Rightarrow> string \<Rightarrow> chunk" where
  "databaseGUCChunk dbname guc =
     \<lparr>chunk_name = dbname, chunk_kind = ''DATABASE GUC'', chunk_text = databaseGUCText dbname guc\<rparr>"

definition resQueueAnnotation :: "'m externals \<Rightarrow> 'm MetadataMap \<Rightarrow> ResourceQueue \<Rightarrow> string" where
  "resQueueAnnotation ext md q =
     ObjectMetadataText ext (md (ResourceQueue.Oid q)) (ResourceQueue.Name q) ''RESOURCE QUEUE''"

fun resQueueChunks ::
  "'m externals \<Rightarrow> 'm MetadataMap \<Rightarrow> ResourceQueue list \<Rightarrow> error + chunk list" where
  "resQueueChunks ext md [] = Inr []"
| "resQueueChunks ext md (q # qs) =
     (case resQueueAttributes ext q of
        Inl e \<Rightarrow> Inl e
      | Inr attributes \<Rightarrow>
         (case resQueueChunks ext md qs of
            Inl e \<Rightarrow> Inl e
          | Inr cs \<Rightarrow>
              Inr (\<lparr>chunk_name = ResourceQueue.Name q, chunk_kind = ''RESOURCE QUEUE'',
                     chunk_text = resQueueText q attributes @ resQueueAnnotation ext md q\<rparr> # cs)))"

definition resGroupAnnotation :: "'m externals \<Rightarrow> 'm MetadataMap \<Rightarrow> ResourceGroup \<Rightarrow> string" where
  "resGroupAnnotation ext md g =
     ObjectMetadataText ext (md (ResourceGroup.Oid g)) (ResourceGroup.Name g) ''RESOURCE GROUP''"

definition builtinResGroup :: "ResourceGroup \<Rightarrow> bool" where
  "builtinResGroup g \<longleftrightarrow>
     ResourceGroup.Name g = ''default_group'' \<or> ResourceGroup.Name g = ''admin_group''"

definition resGroupTexts :: "ResourceGroup \<Rightarrow> string list" where
  "resGroupTexts g =
     (if builtinResGroup g then map (resGroupPropertyText g) (resGroupList g)
      else [resGroupCreateText g])"

definition resGroupChunks :: "'m externals \<Rightarrow> 'm MetadataMap \<Rightarrow> ResourceGroup \<Rightarrow> chunk list" where
  "resGroupChunks ext md g =
     map (\<lambda>t. \<lparr>chunk_name = ResourceGroup.Name g, chunk_kind = ''RESOURCE GROUP'',
                chunk_text = t @ resGroupAnnotation ext md g\<rparr>) (resGroupTexts g)"

definition roleAnnotation :: "'m externals \<Rightarrow> 'm MetadataMap \<Rightarrow> Role \<Rightarrow> string" where
  "roleAnnotation ext md role =
     ObjectMetadataText ext (md (Role.Oid role)) (Role.Name role) ''ROLE''"

definition roleChunk :: "'m externals \<Rightarrow> 'm MetadataMap \<Rightarrow> Role \<Rightarrow> chunk" where
  "roleChunk ext md role =
     \<lparr>chunk_name = Role.Name role, chunk_kind = ''ROLE'',
      chunk_text = roleText ext role @ roleAnnotation ext md role\<rparr>"

definition roleMemberChunk :: "RoleMember \<Rightarrow> chunk" where
  "roleMemberChunk m =
     \<lparr>chunk_name = Member m, chunk_kind = ''ROLE GRANT'', chunk_text = roleMemberText m\<rparr>"

definition tablespaceAnnotation :: "'m externals \<Rightarrow> 'm MetadataMap \<Rightarrow> Tablespace \<Rightarrow> string" where
  "tablespaceAnnotation ext md t =
     ObjectMetadataText ext (md (Tablespace.Oid t)) (Tablespace.Tablespace t) ''TABLESPACE''"

definition tablespaceChunk :: "'m externals \<Rightarrow> 'm MetadataMap \<Rightarrow> Tablespace \<Rightarrow> chunk" where
  "tablespaceChunk ext md t =
     \<lparr>chunk_name = Tablespace.Tablespace t, chunk_kind = ''TABLESPACE'',
      chunk_text = tablespaceText t @ tablespaceAnnotation ext md t\<rparr>"

section \<open>Concrete inputs\<close>

text \<open>
  Collaborators and catalog rows on which the printers are run below. \<open>ascii_upper\<close> is
  \<^verbatim>\<open>strings.ToUpper\<close> on ASCII text, and \<open>parse_cost\<close> reads the few cost strings used
  here as \<^verbatim>\<open>strconv.ParseFloat\<close> does and rejects every other string.
\<close>

definition ascii_upper :: "string \<Rightarrow> string" where
  "ascii_upper s =
     map (\<lambda>c. if (97::nat) \<le> of_char c \<and> of_char c \<le> (122::nat)
              then char_of (of_char c - (32::nat)) else c) s"

definition parse_cost :: "string \<Rightarrow> float64 option" where
  "parse_cost s =
     (if s = ''-1.00'' then Some (Finite (- 1))
      else if s = ''0.00'' then Some (Finite 0)
      else if s = ''32.80'' then Some (Finite (164 / 5))
      else None)"

text \<open>A version 4 source whose objects have no owner, comment or privileges to print.\<close>

definition ext_v4 :: "unit externals" where
  "ext_v4 = \<lparr>ObjectMetadataText = (\<lambda>md name kind. ''''), ParseFloat = parse_cost,
             ToUpper = ascii_upper, VersionBefore5 = True, VersionAtLeast5 = False\<rparr>"

text \<open>A version 5 source whose objects all have an owner.\<close>

definition ext_v5 :: "unit externals" where
  "ext_v5 = \<lparr>ObjectMetadataText =
               (\<lambda>md name kind. ''\<newline>\<newline>ALTER '' @ kind @ '' '' @ name @ '' OWNER TO gpadmin;''),
             ParseFloat = parse_cost,
             ToUpper = ascii_upper, VersionBefore5 = False, VersionAtLeast5 = True\<rparr>"

definition no_metadata :: "unit MetadataMap" where
  "no_metadata = (\<lambda>oid. ())"

definition gucs_utf8 :: SessionGUCs where
  "gucs_utf8 = \<lparr>ClientEncoding = ''UTF8'', DefaultWithOids = ''false''\<rparr>"

definition db_testdb :: Database where
  "db_testdb = \<lparr>Database.Oid = 1, Database.Name = ''testdb'', Database.Tablespace = ''pg_default''\<rparr>"

definition queue_default :: ResourceQueue where
  "queue_default = \<lparr>ResourceQueue.Oid = 6055, ResourceQueue.Name = ''pg_default'',
     ActiveStatements = 20, MaxCost = ''-1.00'', CostOvercommit = False, MinCost = ''0.00'',
     Priority = ''medium'', ResourceQueue.MemoryLimit = ''-1''\<rparr>"

definition queue_some :: ResourceQueue where
  "queue_some = \<lparr>ResourceQueue.Oid = 16385, ResourceQueue.Name = ''someQueue'',
     ActiveStatements = - 1, MaxCost = ''32.80'', CostOvercommit = True, MinCost = ''0.00'',
     Priority = ''high'', ResourceQueue.MemoryLimit = ''2GB''\<rparr>"

definition queue_bad_cost :: ResourceQueue where
  "queue_bad_cost = \<lparr>ResourceQueue.Oid = 16386, ResourceQueue.Name = ''badQueue'',
     ActiveStatements = - 1, MaxCost = ''cheap'', CostOvercommit = False, MinCost = ''0.00'',
     Priority = ''medium'', ResourceQueue.MemoryLimit = ''-1''\<rparr>"

definition group_default :: ResourceGroup where
  "group_default = \<lparr>ResourceGroup.Oid = 6437, ResourceGroup.Name = ''default_group'',
     CPURateLimit = 30, ResourceGroup.MemoryLimit = 30, MemorySharedQuota = 50,
     MemorySpillRatio = 20, Concurrency = 20\<rparr>"

definition group_some :: ResourceGroup where
  "group_some = \<lparr>ResourceGroup.Oid = 16390, ResourceGroup.Name = ''some_group'',
     CPURateLimit = 10, ResourceGroup.MemoryLimit = 20, MemorySharedQuota = 25,
     MemorySpillRatio = 30, Concurrency = 15\<rparr>"

definition role_test :: Role where
  "role_test = \<lparr>Role.Oid = 16400, Role.Name = ''testrole'', Super = False, Inherit = True,
     CreateRole = False, CreateDB = False, CanLogin = True, ConnectionLimit = 4,
     Password = '''', ValidUntil = '''', ResQueue = ''pg_default'', ResGroup = ''default_group'',
     Createrexthttp = False, Createrextgpfd = False, Createwextgpfd = False,
     Createrexthdfs = False, Createwexthdfs = False,
     TimeConstraints = [\<lparr>StartDay = 0, StartTime = ''13:30:00'', EndDay = 3, EndTime = ''14:30:00''\<rparr>]\<rparr>"

definition member_test :: RoleMember where
  "member_test = \<lparr>RoleMember.Role = ''usergroup'', Member = ''testuser'', Grantor = ''gpadmin'',
     IsAdmin = False\<rparr>"

definition tablespace_test :: Tablespace where
  "tablespace_test = \<lparr>Tablespace.Oid = 16410, Tablespace.Tablespace = ''test_tablespace'',
     Filespace = ''test_filespace''\<rparr>"

section \<open>The dependencies of base types\<close>

text \<open>
  The struct \<^verbatim>\<open>Type\<close> of the file of type queries; \<^verbatim>\<open>pq.StringArray\<close> is a list of
  strings.
\<close>

record Type =
  Oid :: oid
  Schema :: string
  Name :: string
  Type :: string
  Input :: string
  Output :: string
  Receive :: string
  Send :: string
  ModIn :: string
  ModOut :: string
  InternalLength :: int
  IsPassedByValue :: bool
  Alignment :: string
  Storage :: string
  DefaultVal :: string
  Element :: string
  Delimiter :: string
  EnumLabels :: string
  BaseType :: string
  NotNull :: bool
  Attributes :: "string list"
  DependsUpon :: "string list"

text \<open>
  The rows of the two dependency queries. \<^verbatim>\<open>Dependency\<close> is declared in another file of the package
  and is read here through its fields \<^verbatim>\<open>Oid\<close> and \<^verbatim>\<open>ReferencedObject\<close>; the rows of
  \<^verbatim>\<open>ConstructBaseTypeDependencies4\<close> are an anonymous struct. Of \<^verbatim>\<open>FunctionInfo\<close> the
  fields \<^verbatim>\<open>QualifiedName\<close> and \<^verbatim>\<open>Arguments\<close> are read.
\<close>

record Dependency =
  Oid :: oid
  ReferencedObject :: string

record OidDependency =
  Oid :: oid
  ReferencedOid :: oid

record FunctionInfo =
  QualifiedName :: string
  Arguments :: string

text \<open>
  \<^verbatim>\<open>dependencyMap[k] = append(dependencyMap[k], s)\<close> on a \<^verbatim>\<open>map[uint32][]string\<close>: an absent
  key reads as the nil slice, the empty list.
\<close>

definition appendDependency :: "(oid \<Rightarrow> string list) \<Rightarrow> oid \<Rightarrow> string \<Rightarrow> (oid \<Rightarrow> string list)" where
  "appendDependency dependencyMap k s = dependencyMap(k := dependencyMap k @ [s])"

text \<open>
  \<^verbatim>\<open>funcInfoMap[oid]\<close> on a \<^verbatim>\<open>map[uint32]FunctionInfo\<close>: an absent key reads as the zero
  value, whose strings are empty.
\<close>

definition funcInfo :: "(oid \<rightharpoonup> FunctionInfo) \<Rightarrow> oid \<Rightarrow> FunctionInfo" where
  "funcInfo funcInfoMap k =
     (case funcInfoMap k of None \<Rightarrow> \<lparr>QualifiedName = '''', Arguments = ''''\<rparr> | Some f \<Rightarrow> f)"

definition dependencyStr :: "(oid \<rightharpoonup> FunctionInfo) \<Rightarrow> oid \<Rightarrow> string" where
  "dependencyStr funcInfoMap k =
     (let referencedFunc = funcInfo funcInfoMap k
      in QualifiedName referencedFunc @ ''('' @ Arguments referencedFunc @ '')'')"

text \<open>
  The last loop of both functions: a type of kind \<^verbatim>\<open>"b"\<close> gets the list the map holds
  for its oid, every other type is left as it is.
\<close>

definition setBaseTypeDependencies :: "(oid \<Rightarrow> string list) \<Rightarrow> Type list \<Rightarrow> Type list" where
  "setBaseTypeDependencies dependencyMap types =
     map (\<lambda>t. if Type.Type t = ''b'' then t\<lparr>Type.DependsUpon := dependencyMap (Type.Oid t)\<rparr> else t) types"

text \<open>A base type and a domain.\<close>

definition base_type :: Type where
  "base_type = \<lparr>Type.Oid = 1, Type.Schema = ''public'', Type.Name = ''base_type'', Type = ''b'',
     Input = ''base_fn_in'', Output = ''base_fn_out'', Receive = '''', Send = '''', ModIn = '''',
     ModOut = '''', InternalLength = 4, IsPassedByValue = True, Alignment = ''i'', Storage = ''p'',
     DefaultVal = '''', Element = '''', Delimiter = '','', EnumLabels = '''', BaseType = '''',
     NotNull = False, Attributes = [], Type.DependsUpon = [''stale'']\<rparr>"

definition domain_type :: Type where
  "domain_type = base_type\<lparr>Type.Oid := 2, Type.Name := ''domain_type'', Type := ''d'',
     Type.DependsUpon := [''public.base_type'']\<rparr>"

definition funcs4 :: "oid \<rightharpoonup> FunctionInfo" where
  "funcs4 = [100 \<mapsto> \<lparr>QualifiedName = ''public.base_fn_in'', Arguments = ''cstring''\<rparr>]"

section \<open>The queries for base and composite types\<close>

text \<open>
  The catalog tables the two queries read, with the columns they name. A column of type
  \<^verbatim>\<open>regproc\<close> is held as the text the database prints for it (\<^verbatim>\<open>-\<close> when there is no
  function), a column of type \<^verbatim>\<open>"char"\<close> as a string, the nullable \<^verbatim>\<open>typdefault\<close> as an
  option. GPDB 4 has no columns \<^verbatim>\<open>typmodin\<close>, \<^verbatim>\<open>typmodout\<close> and \<^verbatim>\<open>typarray\<close>, and its
  queries do not name them.
\<close>

record pg_type =
  oid :: oid
  typname :: string
  typnamespace :: oid
  typtype :: string
  typinput :: string
  typoutput :: string
  typreceive :: string
  typsend :: string
  typmodin :: string
  typmodout :: string
  typlen :: int
  typbyval :: bool
  typalign :: string
  typstorage :: string
  typdefault :: "string option"
  typelem :: oid
  typarray :: oid
  typrelid :: oid
  typdelim :: string

record pg_namespace =
  oid :: oid
  nspname :: string

record pg_class =
  oid :: oid
  relkind :: string

record pg_attribute =
  attrelid :: oid
  attname :: string
  atttypid :: oid
  attnum :: int

record Catalog =
  pg_type_rows :: "pg_type list"
  pg_namespace_rows :: "pg_namespace list"
  pg_class_rows :: "pg_class list"
  pg_attribute_rows :: "pg_attribute list"

text \<open>
  The functions of the database that the select lists call; \<^verbatim>\<open>format_type\<close> is always
  called with \<^verbatim>\<open>NULL\<close> for the type modifier.
\<close>

record sql_functions =
  quote_ident :: "string \<Rightarrow> string"
  format_type :: "oid \<Rightarrow> string"

text \<open>
  A query that fails makes \<^verbatim>\<open>connection.Select\<close> return an error, on which
  \<^verbatim>\<open>utils.CheckError\<close> panics. The one failure the text of the queries can cause is a
  scalar subquery with more than one row.
\<close>

datatype query_error = CardinalityViolation

fun scalar_subquery :: "'a list \<Rightarrow> query_error + 'a option" where
  "scalar_subquery [] = Inr None"
| "scalar_subquery [x] = Inr (Some x)"
| "scalar_subquery (x # y # xs) = Inl CardinalityViolation"

text \<open>A \<^verbatim>\<open>WHERE\<close> clause whose condition can fail; a condition that is NULL drops the row.\<close>

fun filterE :: "('a \<Rightarrow> query_error + bool) \<Rightarrow> 'a list \<Rightarrow> query_error + 'a list" where
  "filterE p [] = Inr []"
| "filterE p (x # xs) =
     (case p x of
        Inl e \<Rightarrow> Inl e
      | Inr b \<Rightarrow>
          (case filterE p xs of
             Inl e \<Rightarrow> Inl e
           | Inr ys \<Rightarrow> Inr (if b then x # ys else ys)))"

text \<open>
  The condition of \<^verbatim>\<open>arrayTypesClause\<close> on the row \<^verbatim>\<open>t\<close>, its conjuncts taken from left
  to right. Before version 5 the name of the type is the name of its element type with
  an underscore in front (\<^verbatim>\<open>t.typname[0]\<close> is the first character, and
  \<^verbatim>\<open>substring(t.typname FROM 2)\<close> the rest); from version 5 on the element type names the
  type in \<^verbatim>\<open>typarray\<close>.
\<close>

definition arrayTypesWhere :: "bool \<Rightarrow> Catalog \<Rightarrow> pg_type \<Rightarrow> query_error + bool" where
  "arrayTypesWhere before5 cat t =
     (if before5 then
        (if typelem t \<noteq> 0 \<and> length (typname t) > 1 \<and> typname t ! 0 = CHR ''_'' then
           (case scalar_subquery
                   (map typname (filter (\<lambda>it. pg_type.oid it = typelem t) (pg_type_rows cat))) of
              Inl e \<Rightarrow> Inl e
            | Inr None \<Rightarrow> Inr False
            | Inr (Some itname) \<Rightarrow> Inr (drop 1 (typname t) = itname))
         else Inr False)
      else
        (if typelem t \<noteq> 0 then
           (case scalar_subquery
                   (map typarray (filter (\<lambda>it. pg_type.oid it = typelem t) (pg_type_rows cat))) of
              Inl e \<Rightarrow> Inl e
            | Inr None \<Rightarrow> Inr False
            | Inr (Some ittyparray) \<Rightarrow> Inr (pg_type.oid t = ittyparray))
         else Inr False))"

text \<open>
  What \<^verbatim>\<open>getTypeQuery\<close> is given: \<^verbatim>\<open>selectClause\<close> holds a select list and a \<^verbatim>\<open>FROM\<close> with
  its joins, in which the aliases \<^verbatim>\<open>t\<close> and \<^verbatim>\<open>n\<close> are bound, and \<^verbatim>\<open>groupBy\<close> the columns to
  group by. \<open>From\<close> gives the joined rows, \<open>alias_t\<close> and \<open>alias_n\<close> the rows bound
  to the aliases, and \<open>Select\<close> the rows that the select list yields for the groups of
  the joined rows that a \<^verbatim>\<open>WHERE\<close> clause or a further join has left.
\<close>

record 'j select_clause =
  From :: "Catalog \<Rightarrow> 'j list"
  alias_t :: "'j \<Rightarrow> pg_type"
  alias_n :: "'j \<Rightarrow> pg_namespace"
  Select :: "'j list \<Rightarrow> Type list"

text \<open>
  The two halves of \<^verbatim>\<open>tableTypesClause\<close>: the joined rows, each once for every row of
  \<^verbatim>\<open>pg_class\<close> (and of \<^verbatim>\<open>pg_type it\<close>) that the join finds for it.
\<close>

definition relation_kinds :: "string list" where
  "relation_kinds = [''r'', ''S'', ''v'']"

definition tableTypesRows :: "'j select_clause \<Rightarrow> Catalog \<Rightarrow> 'j list" where
  "tableTypesRows sc cat =
     [j. j \<leftarrow> From sc cat, c \<leftarrow> pg_class_rows cat,
         typrelid (alias_t sc j) = pg_class.oid c \<and> relkind c \<in> set relation_kinds]"

definition tableArrayTypesRows :: "'j select_clause \<Rightarrow> Catalog \<Rightarrow> 'j list" where
  "tableArrayTypesRows sc cat =
     [j. j \<leftarrow> From sc cat, it \<leftarrow> pg_type_rows cat, typelem (alias_t sc j) = pg_type.oid it,
         c \<leftarrow> pg_class_rows cat,
         typrelid it = pg_class.oid c \<and> relkind c \<in> set relation_kinds]"

text \<open>\<^verbatim>\<open>EXCEPT\<close>: the distinct rows of the left operand that are no row of the right one.\<close>

definition except_rows :: "'a list \<Rightarrow> 'a list \<Rightarrow> 'a list" where
  "except_rows xs ys = remdups (filter (\<lambda>r. r \<notin> set ys) xs)"

text \<open>
  The query of \<^verbatim>\<open>getTypeQuery\<close>, evaluated on a catalog. \<^verbatim>\<open>SchemaFilterClause\<close> is defined
  in another file of the package; the condition it gives on the alias \<^verbatim>\<open>n\<close> is the
  parameter \<open>schemaFilter\<close>. The rows come ordered by schema and name (rows that agree
  on both in the order the sort leaves them).
\<close>

definition getTypeQuery ::
  "bool \<Rightarrow> (pg_namespace \<Rightarrow> bool) \<Rightarrow> 'j select_clause \<Rightarrow> string \<Rightarrow> Catalog \<Rightarrow> query_error + Type list" where
  "getTypeQuery before5 schemaFilter sc typeType cat =
     (case filterE (\<lambda>j. arrayTypesWhere before5 cat (alias_t sc j)) (From sc cat) of
        Inl e \<Rightarrow> Inl e
      | Inr arrayTypesRows \<Rightarrow>
          Inr (sort_key (\<lambda>r. (Type.Schema r, Type.Name r))
                 (except_rows
                    (Select sc (filter (\<lambda>j. schemaFilter (alias_n sc j) \<and>
                                              typtype (alias_t sc j) = typeType) (From sc cat)))
                    (Select sc arrayTypesRows @
                     (Select sc (tableTypesRows sc cat) @
                      Select sc (tableArrayTypesRows sc cat))))))"

text \<open>The zero value of \<^verbatim>\<open>Type\<close>, which \<^verbatim>\<open>Select\<close> leaves in the fields no column fills.\<close>

definition zeroType :: Type where
  "zeroType = \<lparr>Type.Oid = 0, Type.Schema = '''', Type.Name = '''', Type = '''', Input = '''',
     Output = '''', Receive = '''', Send = '''', ModIn = '''', ModOut = '''', InternalLength = 0,
     IsPassedByValue = False, Alignment = '''', Storage = '''', DefaultVal = '''', Element = '''',
     Delimiter = '''', EnumLabels = '''', BaseType = '''', NotNull = False, Attributes = [],
     Type.DependsUpon = []\<rparr>"

text \<open>
  \<^verbatim>\<open>GetBaseTypes\<close>. \<^verbatim>\<open>FROM pg_type t JOIN pg_namespace n ON t.typnamespace = n.oid\<close>; the
  query groups by every column of its select list, so each distinct row comes once.
\<close>

definition regprocText :: "string \<Rightarrow> string" where
  "regprocText p = (if p = ''-'' then '''' else p)"

definition baseTypeRow :: "bool \<Rightarrow> sql_functions \<Rightarrow> pg_type \<times> pg_namespace \<Rightarrow> Type" where
  "baseTypeRow before5 fns j =
     (case j of (t, n) \<Rightarrow>
        zeroType\<lparr>Type.Oid := pg_type.oid t,
          Type.Schema := quote_ident fns (nspname n),
          Type.Name := quote_ident fns (typname t),
          Type := typtype t,
          Input := typinput t,
          Output := typoutput t,
          Receive := (if before5 then typreceive t else regprocText (typreceive t)),
          Send := (if before5 then typsend t else regprocText (typsend t)),
          ModIn := (if before5 then '''' else regprocText (typmodin t)),
          ModOut := (if before5 then '''' else regprocText (typmodout t)),
          InternalLength := typlen t,
          IsPassedByValue := typbyval t,
          Alignment := (if typalign t = ''-'' then '''' else typalign t),
          Storage := typstorage t,
          DefaultVal := (case typdefault t of None \<Rightarrow> '''' | Some d \<Rightarrow> d),
          Element := (if typelem t \<noteq> 0 then format_type fns (typelem t) else ''''),
          Delimiter := typdelim t\<rparr>)"

definition baseTypeSelect :: "bool \<Rightarrow> sql_functions \<Rightarrow> (pg_type \<times> pg_namespace) select_clause" where
  "baseTypeSelect before5 fns =
     \<lparr>From = (\<lambda>cat. [(t, n). t \<leftarrow> pg_type_rows cat, n \<leftarrow> pg_namespace_rows cat,
                              typnamespace t = pg_namespace.oid n]),
      alias_t = fst,
      alias_n = snd,
      Select = (\<lambda>rows. remdups (map (baseTypeRow before5 fns) rows))\<rparr>"

definition GetBaseTypes ::
  "bool \<Rightarrow> sql_functions \<Rightarrow> (pg_namespace \<Rightarrow> bool) \<Rightarrow> Catalog \<Rightarrow> query_error + Type list" where
  "GetBaseTypes before5 fns schemaFilter cat =
     (case getTypeQuery before5 schemaFilter (baseTypeSelect before5 fns) ''b'' cat of
        Inl err \<Rightarrow> Inl err
      | Inr results \<Rightarrow>
          Inr (if before5 then
                 map (\<lambda>r. (if Receive r = ''-'' then r\<lparr>Receive := ''''\<rparr> else r))
                   (map (\<lambda>r. (if Send r = ''-'' then r\<lparr>Send := ''''\<rparr> else r)) results)
               else results))"

text \<open>
  \<^verbatim>\<open>GetCompositeTypes\<close>. The query groups by \<^verbatim>\<open>t.oid, schema, name, t.typtype\<close> and
  aggregates the attributes of a group in the order of \<^verbatim>\<open>attnum\<close> (attributes that agree
  on it in the order the sort leaves them).
\<close>

definition compositeTypeKey ::
  "sql_functions \<Rightarrow> pg_type \<times> pg_attribute \<times> pg_namespace \<Rightarrow> oid \<times> string \<times> string \<times> string" where
  "compositeTypeKey fns j =
     (case j of (t, a, n) \<Rightarrow>
        (pg_type.oid t, quote_ident fns (nspname n), quote_ident fns (typname t), typtype t))"

definition attributeText :: "sql_functions \<Rightarrow> pg_type \<times> pg_attribute \<times> pg_namespace \<Rightarrow> string" where
  "attributeText fns j =
     (case j of (t, a, n) \<Rightarrow>
        [CHR 0x09] @ quote_ident fns (attname a) @ '' '' @ format_type fns (atttypid a))"

definition compositeTypeRow ::
  "sql_functions \<Rightarrow> oid \<times> string \<times> string \<times> string \<Rightarrow> (pg_type \<times> pg_attribute \<times> pg_namespace) list \<Rightarrow> Type" where
  "compositeTypeRow fns k grp =
     (case k of (toid, schema, name, ttype) \<Rightarrow>
        zeroType\<lparr>Type.Oid := toid, Type.Schema := schema, Type.Name := name, Type := ttype,
          Attributes := map (attributeText fns) (sort_key (\<lambda>j. attnum (fst (snd j))) grp)\<rparr>)"

definition compositeTypeSelect ::
  "sql_functions \<Rightarrow> (pg_type \<times> pg_attribute \<times> pg_namespace) select_clause" where
  "compositeTypeSelect fns =
     \<lparr>From = (\<lambda>cat. [(t, a, n). t \<leftarrow> pg_type_rows cat, a \<leftarrow> pg_attribute_rows cat,
                                 typrelid t = attrelid a, n \<leftarrow> pg_namespace_rows cat,
                                 typnamespace t = pg_namespace.oid n]),
      alias_t = fst,
      alias_n = (\<lambda>j. snd (snd j)),
      Select = (\<lambda>rows. map (\<lambda>k. compositeTypeRow fns k
                                    (filter (\<lambda>j. compositeTypeKey fns j = k) rows))
                          (remdups (map (compositeTypeKey fns) rows)))\<rparr>"

definition GetCompositeTypes ::
  "bool \<Rightarrow> sql_functions \<Rightarrow> (pg_namespace \<Rightarrow> bool) \<Rightarrow> Catalog \<Rightarrow> query_error + Type list" where
  "GetCompositeTypes before5 fns schemaFilter cat =
     getTypeQuery before5 schemaFilter (compositeTypeSelect fns) ''c'' cat"

text \<open>
  The types the comments of \<^verbatim>\<open>getTypeQuery\<close> speak of, as the catalog shows them. The
  array type generated for a type: from version 5 on the type that its element type
  names in \<^verbatim>\<open>typarray\<close>, before version 5 the type named like its element type with an
  underscore in front. The type created along with a table: the type whose \<^verbatim>\<open>typrelid\<close>
  is a table, a sequence or a view, and an array type over such a type.
\<close>

definition generated_array :: "bool \<Rightarrow> Catalog \<Rightarrow> pg_type \<Rightarrow> bool" where
  "generated_array before5 cat t =
     (typelem t \<noteq> 0 \<and>
      (\<exists>it\<in>set (pg_type_rows cat). pg_type.oid it = typelem t \<and>
         (if before5 then typname t = CHR ''_'' # typname it \<and> typname it \<noteq> []
          else typarray it = pg_type.oid t)))"

definition table_type :: "Catalog \<Rightarrow> pg_type \<Rightarrow> bool" where
  "table_type cat t =
     (\<exists>c\<in>set (pg_class_rows cat). pg_class.oid c = typrelid t \<and> relkind c \<in> set relation_kinds)"

definition table_array_type :: "Catalog \<Rightarrow> pg_type \<Rightarrow> bool" where
  "table_array_type cat t =
     (\<exists>it\<in>set (pg_type_rows cat). pg_type.oid it = typelem t \<and> table_type cat it)"

definition excluded_type :: "bool \<Rightarrow> Catalog \<Rightarrow> pg_type \<Rightarrow> bool" where
  "excluded_type before5 cat t =
     (generated_array before5 cat t \<or> table_type cat t \<or> table_array_type cat t)"

text \<open>
  The oids of the three tables are keys: the database keeps a unique index on the
  \<^verbatim>\<open>oid\<close> of each.
\<close>

definition oids_unique :: "Catalog \<Rightarrow> bool" where
  "oids_unique cat =
     (distinct (map pg_type.oid (pg_type_rows cat)) \<and>
      distinct (map pg_namespace.oid (pg_namespace_rows cat)) \<and>
      distinct (map pg_class.oid (pg_class_rows cat)))"

text \<open>
  A catalog: the built-in \<^verbatim>\<open>int4\<close> and a base type, a table and a composite type of
  \<^verbatim>\<open>public\<close>, each with the array type generated for it, and the row type of the table.
\<close>

definition type_row :: "oid \<Rightarrow> string \<Rightarrow> oid \<Rightarrow> string \<Rightarrow> oid \<Rightarrow> oid \<Rightarrow> oid \<Rightarrow> pg_type" where
  "type_row toid name nsp ttype elem arr rel =
     \<lparr>pg_type.oid = toid, typname = name, typnamespace = nsp, typtype = ttype,
      typinput = (if elem = 0 then name @ ''_in'' else ''array_in''),
      typoutput = (if elem = 0 then name @ ''_out'' else ''array_out''),
      typreceive = ''-'', typsend = ''-'', typmodin = ''-'', typmodout = ''-'',
      typlen = (if elem = 0 then 4 else - 1), typbyval = (elem = 0), typalign = ''i'',
      typstorage = (if elem = 0 then ''p'' else ''x''), typdefault = None, typelem = elem,
      typarray = arr, typrelid = rel, typdelim = '',''\<rparr>"

definition sample_catalog :: Catalog where
  "sample_catalog =
     \<lparr>pg_type_rows =
        [type_row 23 ''int4'' 11 ''b'' 0 1007 0,
         type_row 1007 ''_int4'' 11 ''b'' 23 0 0,
         type_row 16400 ''money2'' 2200 ''b'' 0 16401 0,
         type_row 16401 ''_money2'' 2200 ''b'' 16400 0 0,
         type_row 16410 ''tab'' 2200 ''c'' 0 16411 16409,
         type_row 16411 ''_tab'' 2200 ''b'' 16410 0 0,
         type_row 16420 ''pair'' 2200 ''c'' 0 16421 16419,
         type_row 16421 ''_pair'' 2200 ''b'' 16420 0 0],
      pg_namespace_rows =
        [\<lparr>pg_namespace.oid = 11, nspname = ''pg_catalog''\<rparr>,
         \<lparr>pg_namespace.oid = 2200, nspname = ''public''\<rparr>],
      pg_class_rows =
        [\<lparr>pg_class.oid = 16409, relkind = ''r''\<rparr>,
         \<lparr>pg_class.oid = 16419, relkind = ''c''\<rparr>],
      pg_attribute_rows =
        [\<lparr>attrelid = 16409, attname = ''a'', atttypid = 23, attnum = 1\<rparr>,
         \<lparr>attrelid = 16419, attname = ''y'', atttypid = 16400, attnum = 2\<rparr>,
         \<lparr>attrelid = 16419, attname = ''x'', atttypid = 23, attnum = 1\<rparr>]\<rparr>"

definition sample_functions :: sql_functions where
  "sample_functions =
     \<lparr>quote_ident = (\<lambda>s. s),
      format_type = (\<lambda>k. if k = 23 then ''integer'' else if k = 16400 then ''money2'' else ''???'')\<rparr>"

definition sample_filter :: "pg_namespace \<Rightarrow> bool" where
  "sample_filter n = (nspname n \<noteq> ''pg_catalog'')"

section \<open>The queries for the functions a base type depends upon\<close>

text \<open>
  The two further tables that the queries of \<^verbatim>\<open>ConstructBaseTypeDependencies4\<close> and
  \<^verbatim>\<open>ConstructBaseTypeDependencies5\<close> read, with the columns they name, and the two
  further functions of the database they call: \<^verbatim>\<open>pg_get_function_arguments\<close> and the
  cast of a relation name to \<^verbatim>\<open>regclass\<close>, the oid of the relation.
\<close>

record pg_depend =
  objid :: oid
  refobjid :: oid
  refclassid :: oid
  deptype :: string

record pg_proc =
  oid :: oid
  proname :: string
  pronamespace :: oid

record DependencyCatalog = Catalog +
  pg_depend_rows :: "pg_depend list"
  pg_proc_rows :: "pg_proc list"

record dependency_functions = sql_functions +
  pg_get_function_arguments :: "oid \<Rightarrow> string"
  regclass :: "string \<Rightarrow> oid"

text \<open>
  \<^verbatim>\<open>(SELECT oid FROM pg_namespace WHERE nspname = 'pg_catalog')\<close>. The subquery does not
  depend on the row at hand, so it has one value for the whole query: the oid of the
  namespace \<^verbatim>\<open>pg_catalog\<close>, NULL when no namespace has that name, and the query fails
  when more than one has.
\<close>

definition pgCatalogOid :: "DependencyCatalog \<Rightarrow> query_error + oid option" where
  "pgCatalogOid cat =
     scalar_subquery
       (map pg_namespace.oid (filter (\<lambda>n. nspname n = ''pg_catalog'') (pg_namespace_rows cat)))"

text \<open>
  \<^verbatim>\<open>p.pronamespace != (SELECT ...)\<close>: a comparison with NULL is not true.
\<close>

definition notInNamespace :: "pg_proc \<Rightarrow> oid option \<Rightarrow> bool" where
  "notInNamespace p k = (case k of None \<Rightarrow> False | Some catalogOid \<Rightarrow> pronamespace p \<noteq> catalogOid)"

text \<open>
  The joined rows of the two queries, \<^verbatim>\<open>FROM pg_depend d JOIN pg_proc p ON (...) JOIN
  pg_type t ON (...) JOIN pg_namespace n ON ...\<close>, that the \<^verbatim>\<open>WHERE\<close> clause keeps. The
  queries differ in the namespace they join: before version 5 the one of the type
  (\<^verbatim>\<open>n.oid = t.typnamespace\<close>), from version 5 on the one of the function
  (\<^verbatim>\<open>n.oid = p.pronamespace\<close>). The condition of \<^verbatim>\<open>SchemaFilterClause("n")\<close> is the
  parameter \<open>schemaFilter\<close>. Neither query has an \<^verbatim>\<open>ORDER BY\<close>; the rows are taken in the
  order of the tables.
\<close>

definition dependencyRows4 ::
  "dependency_functions \<Rightarrow> (pg_namespace \<Rightarrow> bool) \<Rightarrow> DependencyCatalog \<Rightarrow> oid option \<Rightarrow>
     (pg_depend \<times> pg_proc \<times> pg_type \<times> pg_namespace) list" where
  "dependencyRows4 fns schemaFilter cat k =
     [(d, p, t, n).
        d \<leftarrow> pg_depend_rows cat,
        p \<leftarrow> pg_proc_rows cat, refobjid d = pg_proc.oid p \<and> notInNamespace p k,
        t \<leftarrow> pg_type_rows cat, objid d = pg_type.oid t \<and> typtype t = ''b'',
        n \<leftarrow> pg_namespace_rows cat, pg_namespace.oid n = typnamespace t,
        schemaFilter n \<and> refclassid d = regclass fns ''pg_proc'' \<and> deptype d = ''n'']"

definition dependencyRows5 ::
  "dependency_functions \<Rightarrow> (pg_namespace \<Rightarrow> bool) \<Rightarrow> DependencyCatalog \<Rightarrow> oid option \<Rightarrow>
     (pg_depend \<times> pg_proc \<times> pg_type \<times> pg_namespace) list" where
  "dependencyRows5 fns schemaFilter cat k =
     [(d, p, t, n).
        d \<leftarrow> pg_depend_rows cat,
        p \<leftarrow> pg_proc_rows cat, refobjid d = pg_proc.oid p \<and> notInNamespace p k,
        t \<leftarrow> pg_type_rows cat, objid d = pg_type.oid t \<and> typtype t = ''b'',
        n \<leftarrow> pg_namespace_rows cat, pg_namespace.oid n = pronamespace p,
        schemaFilter n \<and> refclassid d = regclass fns ''pg_proc'' \<and> deptype d = ''n'']"

text \<open>
  The select lists, \<^verbatim>\<open>SELECT DISTINCT t.oid, p.oid AS referencedoid\<close> and
  \<^verbatim>\<open>SELECT DISTINCT t.oid, quote_ident(n.nspname) || '.' || quote_ident(p.proname) || '(' ||
  pg_get_function_arguments(p.oid) || ')' AS referencedobject\<close>.
\<close>

definition oidDependencyRow :: "pg_depend \<times> pg_proc \<times> pg_type \<times> pg_namespace \<Rightarrow> OidDependency" where
  "oidDependencyRow j =
     (case j of (d, p, t, n) \<Rightarrow>
        \<lparr>OidDependency.Oid = pg_type.oid t, ReferencedOid = pg_proc.oid p\<rparr>)"

definition referencedObject :: "dependency_functions \<Rightarrow> pg_proc \<Rightarrow> pg_namespace \<Rightarrow> string" where
  "referencedObject fns p n =
     quote_ident fns (nspname n) @ ''.'' @ quote_ident fns (proname p) @ ''('' @
     pg_get_function_arguments fns (pg_proc.oid p) @ '')''"

definition dependencyRow ::
  "dependency_functions \<Rightarrow> pg_depend \<times> pg_proc \<times> pg_type \<times> pg_namespace \<Rightarrow> Dependency" where
  "dependencyRow fns j =
     (case j of (d, p, t, n) \<Rightarrow>
        \<lparr>Dependency.Oid = pg_type.oid t, ReferencedObject = referencedObject fns p n\<rparr>)"

definition dependencyResults4 ::
  "dependency_functions \<Rightarrow> (pg_namespace \<Rightarrow> bool) \<Rightarrow> DependencyCatalog \<Rightarrow> oid option \<Rightarrow>
     OidDependency list" where
  "dependencyResults4 fns schemaFilter cat k =
     remdups (map oidDependencyRow (dependencyRows4 fns schemaFilter cat k))"

definition dependencyResults5 ::
  "dependency_functions \<Rightarrow> (pg_namespace \<Rightarrow> bool) \<Rightarrow> DependencyCatalog \<Rightarrow> oid option \<Rightarrow>
     Dependency list" where
  "dependencyResults5 fns schemaFilter cat k =
     remdups (map (dependencyRow fns) (dependencyRows5 fns schemaFilter cat k))"

text \<open>
  \<^verbatim>\<open>ConstructBaseTypeDependencies4\<close> and \<^verbatim>\<open>ConstructBaseTypeDependencies5\<close>: the query, on
  whose failure \<^verbatim>\<open>CheckError\<close> panics, the loop over its rows that fills
  \<^verbatim>\<open>dependencyMap\<close>, and the loop over the types.
\<close>

definition ConstructBaseTypeDependencies4 ::
  "dependency_functions \<Rightarrow> (pg_namespace \<Rightarrow> bool) \<Rightarrow> DependencyCatalog \<Rightarrow>
     Type list \<Rightarrow> (oid \<rightharpoonup> FunctionInfo) \<Rightarrow> query_error + Type list" where
  "ConstructBaseTypeDependencies4 fns schemaFilter cat types funcInfoMap =
     (case pgCatalogOid cat of
        Inl err \<Rightarrow> Inl err
      | Inr catalogOid \<Rightarrow>
          (let results = dependencyResults4 fns schemaFilter cat catalogOid;
               dependencyMap =
                 foldl (\<lambda>dependencyMap dependency.
                          appendDependency dependencyMap (OidDependency.Oid dependency)
                            (dependencyStr funcInfoMap (ReferencedOid dependency)))
                       (\<lambda>k. []) results
           in Inr (setBaseTypeDependencies dependencyMap types)))"

definition ConstructBaseTypeDependencies5 ::
  "dependency_functions \<Rightarrow> (pg_namespace \<Rightarrow> bool) \<Rightarrow> DependencyCatalog \<Rightarrow>
     Type list \<Rightarrow> query_error + Type list" where
  "ConstructBaseTypeDependencies5 fns schemaFilter cat types =
     (case pgCatalogOid cat of
        Inl err \<Rightarrow> Inl err
      | Inr catalogOid \<Rightarrow>
          (let results = dependencyResults5 fns schemaFilter cat catalogOid;
               dependencyMap =
                 foldl (\<lambda>dependencyMap dependency.
                          appendDependency dependencyMap (Dependency.Oid dependency)
                            (ReferencedObject dependency))
                       (\<lambda>k. []) results
           in Inr (setBaseTypeDependencies dependencyMap types)))"

text \<open>
  A built-in function is a function of the namespace \<^verbatim>\<open>pg_catalog\<close>; a base type uses a
  function when \<^verbatim>\<open>pg_depend\<close> has a normal dependency (\<^verbatim>\<open>deptype = 'n'\<close>) of the type on
  the function.
\<close>

definition builtin_function :: "DependencyCatalog \<Rightarrow> pg_proc \<Rightarrow> bool" where
  "builtin_function cat p =
     (\<exists>n\<in>set (pg_namespace_rows cat). pg_namespace.oid n = pronamespace p \<and> nspname n = ''pg_catalog'')"

definition type_uses ::
  "dependency_functions \<Rightarrow> DependencyCatalog \<Rightarrow> oid \<Rightarrow> pg_proc \<Rightarrow> bool" where
  "type_uses fns cat toid p =
     (\<exists>d\<in>set (pg_depend_rows cat).
        objid d = toid \<and> refobjid d = pg_proc.oid p \<and>
        refclassid d = regclass fns ''pg_proc'' \<and> deptype d = ''n'')"

text \<open>
  A catalog in which the base type of oid 1 uses a function of \<^verbatim>\<open>public\<close> and a function
  of \<^verbatim>\<open>pg_catalog\<close>; the other rows of \<^verbatim>\<open>pg_depend\<close> are a dependency of the domain of
  oid 2, a dependency on a relation and an internal dependency.
\<close>

definition dependency_catalog :: DependencyCatalog where
  "dependency_catalog =
     \<lparr>pg_type_rows =
        [type_row 1 ''base_type'' 2200 ''b'' 0 0 0,
         type_row 2 ''domain_type'' 2200 ''d'' 0 0 0],
      pg_namespace_rows =
        [\<lparr>pg_namespace.oid = 11, nspname = ''pg_catalog''\<rparr>,
         \<lparr>pg_namespace.oid = 2200, nspname = ''public''\<rparr>],
      pg_class_rows = [],
      pg_attribute_rows = [],
      pg_depend_rows =
        [\<lparr>objid = 1, refobjid = 42, refclassid = 1255, deptype = ''n''\<rparr>,
         \<lparr>objid = 1, refobjid = 100, refclassid = 1255, deptype = ''n''\<rparr>,
         \<lparr>objid = 2, refobjid = 100, refclassid = 1255, deptype = ''n''\<rparr>,
         \<lparr>objid = 1, refobjid = 100, refclassid = 1259, deptype = ''n''\<rparr>,
         \<lparr>objid = 1, refobjid = 100, refclassid = 1255, deptype = ''i''\<rparr>],
      pg_proc_rows =
        [\<lparr>pg_proc.oid = 42, proname = ''int4in'', pronamespace = 11\<rparr>,
         \<lparr>pg_proc.oid = 100, proname = ''base_fn_in'', pronamespace = 2200\<rparr>]\<rparr>"

definition dependency_sample_functions :: dependency_functions where
  "dependency_sample_functions =
     \<lparr>quote_ident = (\<lambda>s. s),
      format_type = (\<lambda>k. ''???''),
      pg_get_function_arguments = (\<lambda>k. ''cstring''),
      regclass = (\<lambda>s. if s = ''pg_proc'' then 1255 else 1259)\<rparr>"

section \<open>Dependency resolution and sequencing\<close>

text \<open>
  The dependency resolver and the topological sequencer that consume the
  \<^verbatim>\<open>DependsUpon\<close> lists are not among the files at hand (which hold the printers and the
  catalog queries that fill \<^verbatim>\<open>DependsUpon\<close>). This section models them from sections 3,
  4.1 and 4.2 of the specification.
\<close>

text \<open>
  Modelled from the spec: the \<^verbatim>\<open>Kind\<close> variant of a \<^verbatim>\<open>CatalogObjectRecord\<close>, with the kinds
  the spec lists and \<^verbatim>\<open>Function\<close> for the functions its examples name. The type kinds,
  among which a cycle can be broken, are ``base/composite/domain/enum''.
\<close>

datatype kind =
  BaseType | CompositeType | DomainType | EnumType | ShellType | Function
  | Role | Tablespace | ResourceQueue | ResourceGroup | Database

fun is_type_kind :: "kind \<Rightarrow> bool" where
  "is_type_kind BaseType = True"
| "is_type_kind CompositeType = True"
| "is_type_kind DomainType = True"
| "is_type_kind EnumType = True"
| "is_type_kind k = False"

text \<open>
  Modelled from the spec: \<^verbatim>\<open>CatalogObjectRecord\<close>, ``Oid (opaque stable integer, unique
  for one run), Schema, Name (pre-escaped identifiers), Kind, DependsUpon (ordered list of
  qualified-name strings)''. Its qualified name is the schema and the name joined by a
  dot, as the catalog queries of the source build the entries of \<^verbatim>\<open>DependsUpon\<close>.
\<close>

record CatalogObjectRecord =
  Oid :: oid
  Schema :: string
  Name :: string
  Kind :: kind
  DependsUpon :: "string list"

definition QualifiedName :: "CatalogObjectRecord \<Rightarrow> string" where
  "QualifiedName r = Schema r @ ''.'' @ Name r"

text \<open>
  Modelled from the spec: an element of the \<^verbatim>\<open>EmissionSequence\<close>, the full definition of
  an object or the ``minimal forward-declared stub'' (shell) emitted for it first.
\<close>

datatype emission = Shell CatalogObjectRecord | Full CatalogObjectRecord

fun emitted_record :: "emission \<Rightarrow> CatalogObjectRecord" where
  "emitted_record (Shell r) = r"
| "emitted_record (Full r) = r"

text \<open>Modelled from the spec: the two faults of section 7 that resolution and sequencing raise.\<close>

datatype fault =
  AmbiguousDependency string "oid list"
  | UnbreakableCycle "emission list"

subsection \<open>DependencyResolver\<close>

text \<open>
  Modelled from the spec: ``Builds a qualified-name \<open>\<rightarrow>\<close> node lookup; for each record's
  DependsUpon entry, resolves through the lookup, adding an edge on hit and silently
  dropping on miss. [...] a DependsUpon name matching more than one node [...] fails with
  AmbiguousDependency, reporting the name and all colliding Oids''. \<open>refs\<close> gives the
  reference list of a record; the resolver is run with \<^const>\<open>DependsUpon\<close>.
\<close>

definition lookup :: "CatalogObjectRecord list \<Rightarrow> string \<Rightarrow> CatalogObjectRecord list" where
  "lookup objs n = filter (\<lambda>r. QualifiedName r = n) objs"

fun resolve :: "CatalogObjectRecord list \<Rightarrow> string list \<Rightarrow> fault + CatalogObjectRecord list" where
  "resolve objs [] = Inr []"
| "resolve objs (n # ns) =
     (case lookup objs n of
        [] \<Rightarrow> resolve objs ns
      | [d] \<Rightarrow> (case resolve objs ns of Inl e \<Rightarrow> Inl e | Inr ds \<Rightarrow> Inr (d # ds))
      | d # d' # ds' \<Rightarrow> Inl (AmbiguousDependency n (map Oid (d # d' # ds'))))"

text \<open>
  Modelled from the spec: the \<^verbatim>\<open>DependencyGraph\<close>, ``edges = resolved DependsUpon
  references within the node set only'': every node with the nodes it depends on.
\<close>

type_synonym DependencyGraph = "(CatalogObjectRecord \<times> CatalogObjectRecord list) list"

fun build_graph ::
  "(CatalogObjectRecord \<Rightarrow> string list) \<Rightarrow> CatalogObjectRecord list \<Rightarrow> CatalogObjectRecord list \<Rightarrow>
   fault + DependencyGraph" where
  "build_graph refs objs [] = Inr []"
| "build_graph refs objs (r # rs) =
     (case resolve objs (refs r) of
        Inl e \<Rightarrow> Inl e
      | Inr ds \<Rightarrow> (case build_graph refs objs rs of Inl e \<Rightarrow> Inl e | Inr g \<Rightarrow> Inr ((r, ds) # g)))"

definition DependencyResolver ::
  "(CatalogObjectRecord \<Rightarrow> string list) \<Rightarrow> CatalogObjectRecord list \<Rightarrow> fault + DependencyGraph" where
  "DependencyResolver refs objs = build_graph refs objs objs"

definition nodes :: "DependencyGraph \<Rightarrow> CatalogObjectRecord list" where
  "nodes g = map fst g"

definition deps_of :: "DependencyGraph \<Rightarrow> CatalogObjectRecord \<Rightarrow> CatalogObjectRecord list" where
  "deps_of g r = (case map_of g r of None \<Rightarrow> [] | Some ds \<Rightarrow> ds)"

definition edges :: "DependencyGraph \<Rightarrow> (CatalogObjectRecord \<times> CatalogObjectRecord) list" where
  "edges g = concat (map (\<lambda>r. map (Pair r) (deps_of g r)) (nodes g))"

subsection \<open>TopologicalSequencer\<close>

text \<open>
  Modelled from the spec: ``cycles among base/composite/domain/enum types [...] are
  detected via strongly-connected-component analysis restricted to type-kind nodes''.
  \<open>component g r\<close> are the nodes that lie on a cycle of type-kind nodes with \<open>r\<close>.
\<close>

definition type_edges :: "DependencyGraph \<Rightarrow> (CatalogObjectRecord \<times> CatalogObjectRecord) list" where
  "type_edges g = filter (\<lambda>(r, d). is_type_kind (Kind r) \<and> is_type_kind (Kind d)) (edges g)"

definition component :: "DependencyGraph \<Rightarrow> CatalogObjectRecord \<Rightarrow> CatalogObjectRecord list" where
  "component g r =
     filter (\<lambda>y. (r, y) \<in> (set (type_edges g))\<^sup>+ \<and> (y, r) \<in> (set (type_edges g))\<^sup>+) (nodes g)"

text \<open>
  Modelled from the spec: ``Ties [...] are broken by ascending (Schema, Name, Oid)''. The
  strings compare byte by byte; a shell sorts before the full definition of the same
  object.
\<close>

definition record_key :: "CatalogObjectRecord \<Rightarrow> string \<times> string \<times> oid" where
  "record_key r = (Schema r, Name r, Oid r)"

fun item_key :: "emission \<Rightarrow> (string \<times> string \<times> oid) \<times> nat" where
  "item_key (Shell r) = (record_key r, 0)"
| "item_key (Full r) = (record_key r, 1)"

text \<open>
  Modelled from the spec: ``Any component with more than one member requires shell
  promotion: every member but one cycle anchor is first emitted as a minimal
  forward-declared stub satisfying references, then re-emitted with its full definition
  once its own dependencies are available.'' The spec does not say which member is the
  anchor; its example (the cycle of A and B, sequenced as shell(B), full(A), full(B)) has
  the first member in the order of the tie-break, and so has the model.
\<close>

definition promoted :: "DependencyGraph \<Rightarrow> CatalogObjectRecord \<Rightarrow> bool" where
  "promoted g r =
     (if list_ex (\<lambda>y. y \<noteq> r) (component g r)
      then r \<noteq> arg_min_list record_key (component g r) else False)"

definition items :: "DependencyGraph \<Rightarrow> emission list" where
  "items g = map Shell (filter (promoted g) (nodes g)) @ map Full (nodes g)"

text \<open>
  What an emission waits for: a shell for nothing; a full definition for the shell of
  its own object, if it has one, and for each of its dependencies, where the shell of a
  promoted member of its own component satisfies the reference.
\<close>

fun item_deps :: "DependencyGraph \<Rightarrow> emission \<Rightarrow> emission list" where
  "item_deps g (Shell r) = []"
| "item_deps g (Full r) =
     (if promoted g r then [Shell r] else []) @
     map (\<lambda>d. if promoted g d \<and> d \<in> set (component g r) then Shell d else Full d) (deps_of g r)"

text \<open>
  Modelled from the spec: ``Standard predecessor-count-based topological ordering'':
  \<open>unresolved deps done i\<close> are the predecessors of \<open>i\<close> not yet emitted, and an item is
  ready when it has none. Among the ready items the least in the order of the tie-break
  is emitted next. When items remain and none is ready, sequencing ``fails with
  UnbreakableCycle, reporting the full cycle membership'': the remaining items that lie on
  a cycle.
\<close>

definition unresolved :: "(emission \<Rightarrow> emission list) \<Rightarrow> emission list \<Rightarrow> emission \<Rightarrow> emission list" where
  "unresolved deps done i = filter (\<lambda>d. d \<notin> set done) (deps i)"

definition ready :: "(emission \<Rightarrow> emission list) \<Rightarrow> emission list \<Rightarrow> emission list \<Rightarrow> emission list" where
  "ready deps done rem = filter (\<lambda>i. unresolved deps done i = []) rem"

definition cycle_members :: "(emission \<Rightarrow> emission list) \<Rightarrow> emission list \<Rightarrow> emission list" where
  "cycle_members deps rem =
     filter (\<lambda>i. (i, i) \<in> (set (concat (map (\<lambda>j. map (Pair j) (filter (\<lambda>d. d \<in> set rem) (deps j))) rem)))\<^sup>+)
       rem"

function kahn ::
  "(emission \<Rightarrow> emission list) \<Rightarrow> emission list \<Rightarrow> emission list \<Rightarrow> fault + emission list" where
  "kahn deps done rem =
     (if rem = [] then Inr done
      else if ready deps done rem = [] then Inl (UnbreakableCycle (cycle_members deps rem))
      else kahn deps (done @ [arg_min_list item_key (ready deps done rem)])
             (remove1 (arg_min_list item_key (ready deps done rem)) rem))"
  by pat_completeness auto
termination
proof (relation "measure (\<lambda>(deps, done, rem). length rem)")
  show "wf (measure (\<lambda>(deps, done, rem). length rem))" by simp
next
  fix deps :: "emission \<Rightarrow> emission list" and "done" rem :: "emission list"
  assume ne: "rem \<noteq> []" and r: "ready deps done rem \<noteq> []"
  have "arg_min_list item_key (ready deps done rem) \<in> set (ready deps done rem)"
    by (rule arg_min_list_in [OF r])
  then have "arg_min_list item_key (ready deps done rem) \<in> set rem"
    by (simp add: ready_def)
  then have "length (remove1 (arg_min_list item_key (ready deps done rem)) rem) = length rem - 1"
    by (simp add: length_remove1)
  moreover from ne have "0 < length rem" by simp
  ultimately show "((deps, done @ [arg_min_list item_key (ready deps done rem)],
               remove1 (arg_min_list item_key (ready deps done rem)) rem), (deps, done, rem))
             \<in> measure (\<lambda>(deps, done, rem). length rem)"
    by simp
qed

declare kahn.simps [simp del]

definition TopologicalSequencer :: "DependencyGraph \<Rightarrow> fault + emission list" where
  "TopologicalSequencer g = kahn (item_deps g) [] (items g)"

text \<open>Resolution, then sequencing, of the object set of one run.\<close>

definition sequence_refs ::
  "(CatalogObjectRecord \<Rightarrow> string list) \<Rightarrow> CatalogObjectRecord list \<Rightarrow> fault + emission list" where
  "sequence_refs refs objs =
     (case DependencyResolver refs objs of Inl e \<Rightarrow> Inl e | Inr g \<Rightarrow> TopologicalSequencer g)"

definition EmissionSequence :: "CatalogObjectRecord list \<Rightarrow> fault + emission list" where
  "EmissionSequence objs = sequence_refs DependsUpon objs"

subsection \<open>Concrete object sets\<close>

text \<open>The example of the spec: a function, a type that needs it and a type that needs that type.\<close>

definition FuncX :: CatalogObjectRecord where
  "FuncX = \<lparr>Oid = 3, Schema = ''public'', Name = ''FuncX'', Kind = Function, DependsUpon = []\<rparr>"

definition TypeA :: CatalogObjectRecord where
  "TypeA = \<lparr>Oid = 1, Schema = ''public'', Name = ''TypeA'', Kind = BaseType,
            DependsUpon = [''public.FuncX'']\<rparr>"

definition TypeB :: CatalogObjectRecord where
  "TypeB = \<lparr>Oid = 2, Schema = ''public'', Name = ''TypeB'', Kind = CompositeType,
            DependsUpon = [''public.TypeA'']\<rparr>"

text \<open>Two types that need each other, and a type whose reference is to a built-in function.\<close>

definition CycA :: CatalogObjectRecord where
  "CycA = \<lparr>Oid = 11, Schema = ''public'', Name = ''A'', Kind = BaseType, DependsUpon = [''public.B'']\<rparr>"

definition CycB :: CatalogObjectRecord where
  "CycB = \<lparr>Oid = 12, Schema = ''public'', Name = ''B'', Kind = CompositeType, DependsUpon = [''public.A'']\<rparr>"

definition TypeC :: CatalogObjectRecord where
  "TypeC = \<lparr>Oid = 4, Schema = ''public'', Name = ''TypeC'', Kind = BaseType,
            DependsUpon = [''pg_catalog.int4in(cstring)'', ''public.FuncX'']\<rparr>"

subsection \<open>Properties of an emission sequence\<close>

text \<open>
  \<open>ordered_from deps pre xs\<close>: after the emissions \<open>pre\<close>, every item of \<open>xs\<close> comes after
  all the items it waits for. \<open>least_first deps pre xs\<close>: every item of \<open>xs\<close> has the least
  key among the items that come later in \<open>xs\<close> and were ready when it was emitted.
\<close>

fun ordered_from :: "(emission \<Rightarrow> emission list) \<Rightarrow> emission list \<Rightarrow> emission list \<Rightarrow> bool" where
  "ordered_from deps pre [] = True"
| "ordered_from deps pre (i # xs) = (set (deps i) \<subseteq> set pre \<and> ordered_from deps (pre @ [i]) xs)"

fun least_first :: "(emission \<Rightarrow> emission list) \<Rightarrow> emission list \<Rightarrow> emission list \<Rightarrow> bool" where
  "least_first deps pre [] = True"
| "least_first deps pre (i # xs) =
     ((\<forall>j\<in>set xs. set (deps j) \<subseteq> set pre \<longrightarrow> item_key i \<le> item_key j) \<and>
      least_first deps (pre @ [i]) xs)"

section \<open>The type queries as a source of candidates\<close>

text \<open>
  Modelled from the spec: the \<^verbatim>\<open>CatalogObjectRecord\<close> of a row of a type query (the code
  that hands the rows to the resolver is not among the files at hand). The record takes
  \<^verbatim>\<open>Oid\<close>, \<^verbatim>\<open>Schema\<close>, \<^verbatim>\<open>Name\<close> and \<^verbatim>\<open>DependsUpon\<close> from the row, and the kind that
  \<^verbatim>\<open>typtype\<close> names: \<^verbatim>\<open>b\<close> a base type, \<^verbatim>\<open>c\<close> a composite type, \<^verbatim>\<open>d\<close> a domain, \<^verbatim>\<open>e\<close> an
  enum, and \<^verbatim>\<open>p\<close>, which \<^verbatim>\<open>GetShellTypes\<close> selects, a shell type.
\<close>

definition type_kind :: "string \<Rightarrow> kind" where
  "type_kind ty =
     (if ty = ''b'' then BaseType
      else if ty = ''c'' then CompositeType
      else if ty = ''d'' then DomainType
      else if ty = ''e'' then EnumType
      else ShellType)"

definition type_record :: "Type \<Rightarrow> CatalogObjectRecord" where
  "type_record ty =
     \<lparr>Oid = Type.Oid ty, Schema = Type.Schema ty, Name = Type.Name ty,
      Kind = type_kind (Type.Type ty), DependsUpon = Type.DependsUpon ty\<rparr>"

section \<open>Properties of the writer and of tilings\<close>

lemma Written_MustPrintf: "Written (MustPrintf f s) = Written f @ s"
  by (simp add: MustPrintf_def)

lemma ByteCount_MustPrintf: "ByteCount (MustPrintf f s) = ByteCount f + length s"
  by (simp add: MustPrintf_def)

lemma MustPrintf_MustPrintf: "MustPrintf (MustPrintf f a) b = MustPrintf f (a @ b)"
  by (simp add: MustPrintf_def)

lemma MustPrintf_Nil: "MustPrintf f [] = f"
  by (simp add: MustPrintf_def)

lemma wf_file_MustPrintf: "wf_file f \<Longrightarrow> wf_file (MustPrintf f s)"
  by (simp add: wf_file_def MustPrintf_def)

lemma foldl_MustPrintf:
  "foldl (\<lambda>g x. MustPrintf g (t x)) f xs = MustPrintf f (concat (map t xs))"
  by (induction xs arbitrary: f) (simp_all add: MustPrintf_Nil MustPrintf_MustPrintf)

lemma tiles_le: "tiles a es b \<Longrightarrow> a \<le> b"
proof (induction es arbitrary: a)
  case Nil
  then show ?case by simp
next
  case (Cons e es)
  then have "a \<le> EndByte e" "tiles (EndByte e) es b" by simp_all
  with Cons.IH [of "EndByte e"] show ?case by simp
qed

lemma tiles_append: "tiles a xs b \<Longrightarrow> tiles b ys c \<Longrightarrow> tiles a (xs @ ys) c"
  by (induction xs arbitrary: a) auto

lemma tiles_append_iff: "tiles a (xs @ ys) c \<longleftrightarrow> (\<exists>b. tiles a xs b \<and> tiles b ys c)"
  by (induction xs arbitrary: a) auto

lemma tiles_bounds: "tiles a es b \<Longrightarrow> e \<in> set es \<Longrightarrow> a \<le> StartByte e \<and> StartByte e \<le> EndByte e \<and> EndByte e \<le> b"
proof (induction es arbitrary: a)
  case Nil
  then show ?case by simp
next
  case (Cons x es)
  show ?case
  proof (cases "e = x")
    case True
    with Cons.prems tiles_le [of "EndByte x" es b] show ?thesis by simp
  next
    case False
    with Cons.prems have "e \<in> set es" "tiles (EndByte x) es b" "a \<le> EndByte x" by auto
    with Cons.IH [of "EndByte x"] show ?thesis by simp
  qed
qed

lemma tiles_concat:
  "tiles a es b \<Longrightarrow>
   concat (map (\<lambda>e. take (EndByte e - StartByte e) (drop (StartByte e) s)) es) = take (b - a) (drop a s)"
proof (induction es arbitrary: a)
  case Nil
  then show ?case by simp
next
  case (Cons e es)
  then have ab: "StartByte e = a" "a \<le> EndByte e" "tiles (EndByte e) es b" by auto
  from tiles_le [OF ab(3)] have eb: "EndByte e \<le> b" .
  have "take (EndByte e - a) (drop a s) @ take (b - EndByte e) (drop (EndByte e) s)
        = take (EndByte e - a) (drop a s) @ take (b - EndByte e) (drop (EndByte e - a) (drop a s))"
    using ab(2) by simp
  also have "\<dots> = take ((EndByte e - a) + (b - EndByte e)) (drop a s)"
    by (simp add: take_add)
  also have "\<dots> = take (b - a) (drop a s)"
    using ab(2) eb by simp
  finally show ?case using Cons.IH [OF ab(3)] ab(1) by simp
qed

lemma range_text_append:
  "EndByte e \<le> length (Written f) \<Longrightarrow> Written f' = Written f @ w \<Longrightarrow> range_text f' e = range_text f e"
  by (simp add: range_text_def)

lemma extends_tilingI:
  assumes "wf_file f" and "Written f' = Written f @ w" and "toc' = toc @ new"
    and "wf_file f'" and "gap \<le> length w"
    and "tiles (ByteCount f + gap) new (ByteCount f')"
  shows "extends_tiling gap (f, toc) (f', toc')"
proof -
  have nb: "new_bytes (f, toc) (f', toc') = w" and ne: "new_entries (f, toc) (f', toc') = new"
    using assms by (simp_all add: new_bytes_def new_entries_def)
  have len: "ByteCount f' = length (Written f) + length w" "ByteCount f = length (Written f)"
    using assms by (simp_all add: wf_file_def)
  have "concat (map (range_text f') new) = take (ByteCount f' - (ByteCount f + gap)) (drop (ByteCount f + gap) (Written f'))"
    unfolding range_text_def by (rule tiles_concat [OF assms(6)])
  also have "\<dots> = drop gap w"
    using assms(2,5) len by simp
  finally have cc: "concat (map (range_text f') new) = drop gap w" .
  have "length (range_text f' e) = EndByte e - StartByte e" if "e \<in> set new" for e
  proof -
    from tiles_bounds [OF assms(6) that] have "EndByte e \<le> length (Written f')"
      using assms(4) by (simp add: wf_file_def)
    then show ?thesis by (simp add: range_text_def)
  qed
  then have "list_all (\<lambda>e. length (range_text f' e) = EndByte e - StartByte e) new"
    by (simp add: list_all_iff)
  with cc show ?thesis
    using assms nb ne by (simp add: extends_tiling_def)
qed

lemma extends_tilingD:
  assumes "extends_tiling gap st st'"
  obtains w new where "Written (fst st') = Written (fst st) @ w" "snd st' = snd st @ new"
    "wf_file (fst st')" "gap \<le> length w" "tiles (ByteCount (fst st) + gap) new (ByteCount (fst st'))"
    "new_entries st st' = new" "new_bytes st st' = w"
  using assms unfolding extends_tiling_def by blast

lemma extends_tiling_trans:
  assumes wf: "wf_file (fst st)" and 1: "extends_tiling gap st st'" and 2: "extends_tiling 0 st' st''"
  shows "extends_tiling gap st st''"
proof -
  from 1 obtain w new where a: "Written (fst st') = Written (fst st) @ w" "snd st' = snd st @ new"
    "wf_file (fst st')" "gap \<le> length w" "tiles (ByteCount (fst st) + gap) new (ByteCount (fst st'))"
    by (rule extends_tilingD)
  from 2 obtain w' new' where b: "Written (fst st'') = Written (fst st') @ w'" "snd st'' = snd st' @ new'"
    "wf_file (fst st'')" "tiles (ByteCount (fst st') + 0) new' (ByteCount (fst st''))"
    by (rule extends_tilingD)
  have "extends_tiling gap (fst st, snd st) (fst st'', snd st'')"
  proof (rule extends_tilingI [where w = "w @ w'" and new = "new @ new'"])
    show "tiles (ByteCount (fst st) + gap) (new @ new') (ByteCount (fst st''))"
      using a(5) b(4) by (auto intro: tiles_append)
  qed (use wf a b in simp_all)
  then show ?thesis by simp
qed

lemma extends_tiling_refl: "wf_file (fst st) \<Longrightarrow> extends_tiling 0 st st"
  using extends_tilingI [of "fst st" "fst st" "[]" "snd st" "snd st" "[]" 0] by simp

lemma extends_tiling_wf: "extends_tiling gap st st' \<Longrightarrow> wf_file (fst st')"
  by (simp add: extends_tiling_def)

lemma extends_tiling_foldl:
  assumes step: "\<And>st x. wf_file (fst st) \<Longrightarrow> extends_tiling 0 st (body st x)"
    and wf: "wf_file (fst st)"
  shows "extends_tiling 0 st (foldl body st xs)"
  using wf
proof (induction xs arbitrary: st rule: rev_induct)
  case Nil
  then show ?case by (simp add: extends_tiling_refl)
next
  case (snoc x xs)
  have 1: "extends_tiling 0 st (foldl body st xs)" by (rule snoc.IH [OF snoc.prems])
  have 2: "extends_tiling 0 (foldl body st xs) (body (foldl body st xs) x)"
    by (rule step [OF extends_tiling_wf [OF 1]])
  show ?case using extends_tiling_trans [OF snoc.prems 1 2] by simp
qed

subsection \<open>Chunks\<close>

lemma layout_append:
  "layout a (cs @ ds) = layout a cs @ layout (a + length (concat (map chunk_text cs))) ds"
  by (induction cs arbitrary: a) (simp_all add: add.assoc)

lemma length_layout: "length (layout a cs) = length cs"
  by (induction cs arbitrary: a) simp_all

lemma tiles_layout: "tiles a (layout a cs) (a + length (concat (map chunk_text cs)))"
proof (induction cs arbitrary: a)
  case Nil
  show ?case by simp
next
  case (Cons c cs)
  from Cons.IH [of "a + length (chunk_text c)"] show ?case
    by (simp add: entry_def add.assoc)
qed

lemma layout_chunks:
  "list_all2 (\<lambda>c e. MetadataEntry.Schema e = '''' \<and> MetadataEntry.Name e = chunk_name c \<and> ObjectType e = chunk_kind c \<and>
                     EndByte e = StartByte e + length (chunk_text c) \<and>
                     take (length (chunk_text c)) (drop (StartByte e) (pre @ concat (map chunk_text cs))) = chunk_text c)
     cs (layout (length pre) cs)"
proof (induction cs arbitrary: pre)
  case Nil
  show ?case by simp
next
  case (Cons c cs)
  have "list_all2 (\<lambda>c' e. MetadataEntry.Schema e = '''' \<and> MetadataEntry.Name e = chunk_name c' \<and> ObjectType e = chunk_kind c' \<and>
                     EndByte e = StartByte e + length (chunk_text c') \<and>
                     take (length (chunk_text c')) (drop (StartByte e) ((pre @ chunk_text c) @ concat (map chunk_text cs))) = chunk_text c')
     cs (layout (length (pre @ chunk_text c)) cs)"
    by (rule Cons.IH)
  then show ?case by (simp add: entry_def)
qed

lemma emit_Nil: "emit st [] = st"
  by (simp add: emit_def MustPrintf_Nil)

lemma emit_emit: "emit (emit st cs) ds = emit st (cs @ ds)"
  by (simp add: emit_def MustPrintf_MustPrintf ByteCount_MustPrintf layout_append)

lemma foldl_emit:
  assumes "\<And>st x. body st x = emit st (ch x)"
  shows "foldl body st xs = emit st (concat (map ch xs))"
  by (induction xs arbitrary: st) (simp_all add: assms emit_Nil emit_emit)

lemma foldl_emit1:
  assumes "\<And>st x. body st x = emit st [ch x]"
  shows "foldl body st xs = emit st (map ch xs)"
  using foldl_emit [of body "\<lambda>x. [ch x]" st xs, OF assms] by (simp add: concat_map_singleton)

lemma new_entries_emit: "new_entries st (emit st cs) = layout (ByteCount (fst st)) cs"
  by (simp add: new_entries_def emit_def)

lemma new_bytes_emit: "new_bytes st (emit st cs) = concat (map chunk_text cs)"
  by (simp add: new_bytes_def emit_def Written_MustPrintf)

lemma snd_emit: "snd (emit st cs) = snd st @ layout (ByteCount (fst st)) cs"
  by (simp add: emit_def)

lemma Written_emit: "Written (fst (emit st cs)) = Written (fst st) @ concat (map chunk_text cs)"
  by (simp add: emit_def Written_MustPrintf)

lemma wf_file_emit: "wf_file (fst st) \<Longrightarrow> wf_file (fst (emit st cs))"
  by (simp add: emit_def wf_file_MustPrintf)

lemma extends_tiling_emit:
  assumes "wf_file (fst st)"
  shows "extends_tiling 0 st (emit st cs)"
proof -
  have "extends_tiling 0 (fst st, snd st) (fst (emit st cs), snd (emit st cs))"
  proof (rule extends_tilingI [where w = "concat (map chunk_text cs)" and new = "layout (ByteCount (fst st)) cs"])
    show "tiles (ByteCount (fst st) + 0) (layout (ByteCount (fst st)) cs) (ByteCount (fst (emit st cs)))"
      using tiles_layout [of "ByteCount (fst st)" cs] by (simp add: emit_def ByteCount_MustPrintf)
  qed (use assms in \<open>simp_all add: Written_emit snd_emit wf_file_emit\<close>)
  then show ?thesis by simp
qed

lemma emit_chunks:
  assumes "wf_file (fst st)"
  shows "list_all2 (\<lambda>c e. MetadataEntry.Schema e = '''' \<and> MetadataEntry.Name e = chunk_name c \<and> ObjectType e = chunk_kind c \<and>
                     EndByte e = StartByte e + length (chunk_text c) \<and>
                     range_text (fst (emit st cs)) e = chunk_text c)
     cs (new_entries st (emit st cs))"
proof -
  have "list_all2 (\<lambda>c e. MetadataEntry.Schema e = '''' \<and> MetadataEntry.Name e = chunk_name c \<and> ObjectType e = chunk_kind c \<and>
                     EndByte e = StartByte e + length (chunk_text c) \<and>
                     take (length (chunk_text c)) (drop (StartByte e) (Written (fst st) @ concat (map chunk_text cs))) = chunk_text c)
     cs (layout (length (Written (fst st))) cs)"
    by (rule layout_chunks)
  then show ?thesis
    using assms
    by (simp add: new_entries_emit Written_emit range_text_def wf_file_def list_all2_conv_all_nth)
qed

subsection \<open>Every printer writes its chunks\<close>

lemma emit1:
  "(MustPrintf f w, toc @ [entry n k (ByteCount f) (length w)])
   = emit (f, toc) [\<lparr>chunk_name = n, chunk_kind = k, chunk_text = w\<rparr>]"
  by (simp add: emit_def)

lemma printed_entry:
  "(MustPrintf f w, AddMetadataEntry toc '''' n k (ByteCount f) (MustPrintf f w))
   = emit (f, toc) [\<lparr>chunk_name = n, chunk_kind = k, chunk_text = w\<rparr>]"
  by (simp add: AddMetadataEntry_def entry_def ByteCount_MustPrintf emit_def)

lemma printUniversalSessionGUCs_emit:
  "printUniversalSessionGUCs st gucs =
     emit st [\<lparr>chunk_name = '''', chunk_kind = ''SESSION GUCS'', chunk_text = universalSessionGUCsText gucs\<rparr>]"
  unfolding printUniversalSessionGUCs_def universalSessionGUCsText_def Let_def
  by (cases st) (simp only: prod.case printed_entry)

lemma print4OnlySessionGUCs_emit:
  "print4OnlySessionGUCs st =
     emit st [\<lparr>chunk_name = '''', chunk_kind = ''GPDB4 SESSION GUCS'', chunk_text = gpdb4SessionGUCsText\<rparr>]"
  unfolding print4OnlySessionGUCs_def gpdb4SessionGUCsText_def Let_def
  by (cases st) (simp only: prod.case printed_entry)

lemma PrintSessionGUCs_emit:
  "PrintSessionGUCs ext st gucs = emit st (sessionGUCsChunks ext gucs)"
  by (simp add: PrintSessionGUCs_def printUniversalSessionGUCs_emit print4OnlySessionGUCs_emit
      emit_emit sessionGUCsChunks_def)

lemma PrintCreateDatabaseStatement_emit:
  "PrintCreateDatabaseStatement ext st db md = emit st (databaseChunks ext md db)"
  by (cases st)
     (simp add: PrintCreateDatabaseStatement_def databaseText_def Let_def PrintObjectMetadata_def
      MustPrintf_MustPrintf AddMetadataEntry_def entry_def ByteCount_MustPrintf emit_def
      databaseChunks_def databaseAnnotation_def MustPrintf_Nil)

lemma printDatabaseGUC_emit:
  "printDatabaseGUC dbname st guc = emit st [databaseGUCChunk dbname guc]"
  unfolding printDatabaseGUC_def databaseGUCText_def databaseGUCChunk_def Let_def
  by (cases st) (simp only: prod.case printed_entry)

lemma PrintDatabaseGUCs_emit:
  "PrintDatabaseGUCs st gucs dbname = emit st (map (databaseGUCChunk dbname) gucs)"
  unfolding PrintDatabaseGUCs_def by (rule foldl_emit1) (rule printDatabaseGUC_emit)

lemma printResourceQueue_emit:
  "printResourceQueue ext md st q =
     (case resQueueAttributes ext q of
        Inl e \<Rightarrow> Inl e
      | Inr attributes \<Rightarrow>
          Inr (emit st [\<lparr>chunk_name = ResourceQueue.Name q, chunk_kind = ''RESOURCE QUEUE'',
                 chunk_text = resQueueText q attributes @ resQueueAnnotation ext md q\<rparr>]))"
  by (cases st)
     (simp add: printResourceQueue_def resQueueText_def Let_def PrintObjectMetadata_def
      MustPrintf_MustPrintf AddMetadataEntry_def entry_def ByteCount_MustPrintf emit_def
      resQueueAnnotation_def split: sum.split)

lemma PrintCreateResourceQueueStatements_emit:
  "PrintCreateResourceQueueStatements ext st qs md =
     (case resQueueChunks ext md qs of Inl e \<Rightarrow> Inl e | Inr cs \<Rightarrow> Inr (emit st cs))"
proof (induction qs arbitrary: st)
  case Nil
  show ?case by (simp add: emit_Nil)
next
  case (Cons q qs)
  show ?case
  proof (cases "resQueueAttributes ext q")
    case (Inl e)
    then show ?thesis by (simp add: printResourceQueue_emit)
  next
    case (Inr attributes)
    then show ?thesis
      by (cases "resQueueChunks ext md qs")
         (simp_all add: printResourceQueue_emit Cons.IH emit_emit)
  qed
qed

lemma printResGroupProperty_emit:
  "printResGroupProperty ext md g st p =
     emit st [\<lparr>chunk_name = ResourceGroup.Name g, chunk_kind = ''RESOURCE GROUP'',
               chunk_text = resGroupPropertyText g p @ resGroupAnnotation ext md g\<rparr>]"
  by (cases st)
     (simp add: printResGroupProperty_def resGroupPropertyText_def Let_def PrintObjectMetadata_def
      MustPrintf_MustPrintf AddMetadataEntry_def entry_def ByteCount_MustPrintf emit_def
      resGroupAnnotation_def)

lemma printResourceGroup_emit:
  "printResourceGroup ext md st g = emit st (resGroupChunks ext md g)"
proof (cases "builtinResGroup g")
  case True
  have "foldl (printResGroupProperty ext md g) st (resGroupList g)
        = emit st (map (\<lambda>p. \<lparr>chunk_name = ResourceGroup.Name g, chunk_kind = ''RESOURCE GROUP'',
               chunk_text = resGroupPropertyText g p @ resGroupAnnotation ext md g\<rparr>) (resGroupList g))"
    by (rule foldl_emit1) (rule printResGroupProperty_emit)
  with True show ?thesis
    by (simp add: printResourceGroup_def builtinResGroup_def resGroupChunks_def resGroupTexts_def
        comp_def)
next
  case False
  then show ?thesis
    by (cases st)
       (simp add: printResourceGroup_def builtinResGroup_def resGroupChunks_def resGroupTexts_def
        Let_def PrintObjectMetadata_def MustPrintf_MustPrintf AddMetadataEntry_def entry_def
        ByteCount_MustPrintf emit_def resGroupAnnotation_def)
qed

lemma PrintCreateResourceGroupStatements_emit:
  "PrintCreateResourceGroupStatements ext st gs md = emit st (concat (map (resGroupChunks ext md) gs))"
  unfolding PrintCreateResourceGroupStatements_def by (rule foldl_emit) (rule printResourceGroup_emit)

lemma foldl_printTimeConstraint:
  "foldl (printTimeConstraint role) f tcs = MustPrintf f (concat (map (timeConstraintText role) tcs))"
proof -
  have "printTimeConstraint role = (\<lambda>g x. MustPrintf g (timeConstraintText role x))"
    by (intro ext) (simp add: printTimeConstraint_def timeConstraintText_def)
  then show ?thesis by (simp add: foldl_MustPrintf)
qed

lemma printRole_emit:
  "printRole ext md st role = emit st [roleChunk ext md role]"
proof -
  have tc: "(if length (TimeConstraints role) \<noteq> 0
             then foldl (printTimeConstraint role) g (TimeConstraints role) else g)
            = MustPrintf g (concat (map (timeConstraintText role) (TimeConstraints role)))" for g
    by (simp add: foldl_printTimeConstraint MustPrintf_Nil)
  show ?thesis
    unfolding printRole_def Let_def tc
    by (cases st)
       (simp add: roleText_def PrintObjectMetadata_def roleChunk_def roleAnnotation_def
        MustPrintf_MustPrintf AddMetadataEntry_def entry_def ByteCount_MustPrintf emit_def)
qed

lemma PrintCreateRoleStatements_emit:
  "PrintCreateRoleStatements ext st roles md = emit st (map (roleChunk ext md) roles)"
  unfolding PrintCreateRoleStatements_def by (rule foldl_emit1) (rule printRole_emit)

lemma printRoleMember_emit:
  "printRoleMember st m = emit st [roleMemberChunk m]"
  by (cases st)
     (simp add: printRoleMember_def roleMemberText_def roleMemberChunk_def Let_def
      MustPrintf_MustPrintf AddMetadataEntry_def entry_def ByteCount_MustPrintf emit_def)

lemma PrintRoleMembershipStatements_emit:
  "PrintRoleMembershipStatements st ms =
     emit (MustPrintf (fst st) ''\<newline>\<newline>'', snd st) (map roleMemberChunk ms)"
proof -
  have "foldl printRoleMember st' ms = emit st' (map roleMemberChunk ms)" for st'
    by (rule foldl_emit1) (rule printRoleMember_emit)
  then show ?thesis
    by (cases st) (simp add: PrintRoleMembershipStatements_def MustPrintln_def)
qed

lemma printTablespace_emit:
  "printTablespace ext md st t = emit st [tablespaceChunk ext md t]"
  by (cases st)
     (simp add: printTablespace_def tablespaceText_def tablespaceChunk_def tablespaceAnnotation_def
      Let_def PrintObjectMetadata_def
      MustPrintf_MustPrintf AddMetadataEntry_def entry_def ByteCount_MustPrintf emit_def)

lemma PrintCreateTablespaceStatements_emit:
  "PrintCreateTablespaceStatements ext st ts md = emit st (map (tablespaceChunk ext md) ts)"
  unfolding PrintCreateTablespaceStatements_def by (rule foldl_emit1) (rule printTablespace_emit)

subsection \<open>What the entries of emitted chunks say\<close>

lemma layout_labels: "map entry_label (layout a cs) = map (\<lambda>c. (chunk_name c, chunk_kind c)) cs"
  by (induction cs arbitrary: a) (simp_all add: entry_label_def entry_def)

lemma labels_emit:
  "map entry_label (snd (emit st cs)) = map entry_label (snd st) @ map (\<lambda>c. (chunk_name c, chunk_kind c)) cs"
  by (simp add: snd_emit layout_labels)

lemma layout_kinds: "map ObjectType (layout a cs) = map chunk_kind cs"
  by (induction cs arbitrary: a) (simp_all add: entry_def)

lemma layout_strict:
  "list_all (\<lambda>c. chunk_text c \<noteq> '''') cs \<Longrightarrow> list_all (\<lambda>e. StartByte e < EndByte e) (layout a cs)"
  by (induction cs arbitrary: a) (simp_all add: entry_def)

lemma range_texts_emit:
  assumes "wf_file (fst st)"
  shows "map (range_text (fst (emit st cs))) (new_entries st (emit st cs)) = map chunk_text cs"
proof -
  from emit_chunks [OF assms, of cs]
  have "list_all2 (\<lambda>c e. range_text (fst (emit st cs)) e = chunk_text c) cs (new_entries st (emit st cs))"
    by (rule list_all2_mono) simp
  then show ?thesis
    by (simp add: list_all2_conv_all_nth list_eq_iff_nth_eq)
qed

lemma kind_texts_emit:
  assumes "wf_file (fst st)"
  shows "map (\<lambda>e. (ObjectType e, range_text (fst (emit st cs)) e)) (new_entries st (emit st cs))
         = map (\<lambda>c. (chunk_kind c, chunk_text c)) cs"
proof -
  from emit_chunks [OF assms, of cs]
  have "list_all2 (\<lambda>c e. (ObjectType e, range_text (fst (emit st cs)) e) = (chunk_kind c, chunk_text c))
          cs (new_entries st (emit st cs))"
    by (rule list_all2_mono) simp
  then show ?thesis
    by (simp add: list_all2_conv_all_nth list_eq_iff_nth_eq)
qed

lemma section_covered_extends:
  assumes "section_covered st" and "extends_tiling 0 st st'"
  shows "section_covered st'"
proof -
  from assms(2) obtain w new where a: "Written (fst st') = Written (fst st) @ w" "snd st' = snd st @ new"
    "wf_file (fst st')" "tiles (ByteCount (fst st) + 0) new (ByteCount (fst st'))"
    by (rule extends_tilingD)
  from assms(1) have b: "wf_file (fst st)" "tiles 0 (snd st) (ByteCount (fst st))"
    by (simp_all add: section_covered_def)
  have t: "tiles 0 (snd st') (ByteCount (fst st'))"
    using a(2,4) b(2) by (auto intro: tiles_append)
  have "concat (map (range_text (fst st')) (snd st')) = take (ByteCount (fst st') - 0) (drop 0 (Written (fst st')))"
    unfolding range_text_def by (rule tiles_concat [OF t])
  also have "\<dots> = Written (fst st')"
    using a(3) by (simp add: wf_file_def)
  finally show ?thesis using a(3) t by (simp add: section_covered_def)
qed

lemma extends_tiling_after_gap:
  assumes "wf_file (fst st)"
  shows "extends_tiling (length g) st (emit (MustPrintf (fst st) g, snd st) cs)"
proof -
  let ?st' = "emit (MustPrintf (fst st) g, snd st) cs"
  have "extends_tiling (length g) (fst st, snd st) (fst ?st', snd ?st')"
  proof (rule extends_tilingI [where w = "g @ concat (map chunk_text cs)"
        and new = "layout (ByteCount (fst st) + length g) cs"])
    show "tiles (ByteCount (fst st) + length g) (layout (ByteCount (fst st) + length g) cs) (ByteCount (fst ?st'))"
      using tiles_layout [of "ByteCount (fst st) + length g" cs]
      by (simp add: emit_def ByteCount_MustPrintf)
    show "wf_file (fst ?st')"
      using assms by (simp add: emit_def wf_file_MustPrintf)
  qed (use assms in \<open>simp_all add: Written_emit snd_emit Written_MustPrintf ByteCount_MustPrintf\<close>)
  then show ?thesis by simp
qed

subsection \<open>The chunks are not empty\<close>

lemma resQueueChunks_nonempty:
  "resQueueChunks ext md qs = Inr cs \<Longrightarrow> list_all (\<lambda>c. chunk_text c \<noteq> '''') cs"
  by (induction qs arbitrary: cs) (auto simp: resQueueText_def split: sum.splits)

lemma resGroupChunks_nonempty: "list_all (\<lambda>c. chunk_text c \<noteq> '''') (resGroupChunks ext md g)"
  by (simp add: resGroupChunks_def resGroupTexts_def resGroupList_def resGroupPropertyText_def
      resGroupCreateText_def list_all_iff)

lemma sessionGUCsChunks_nonempty: "list_all (\<lambda>c. chunk_text c \<noteq> '''') (sessionGUCsChunks ext gucs)"
  by (simp add: sessionGUCsChunks_def universalSessionGUCsText_def gpdb4SessionGUCsText_def)

lemma databaseChunks_nonempty: "list_all (\<lambda>c. chunk_text c \<noteq> '''') (databaseChunks ext md db)"
  by (simp add: databaseChunks_def databaseText_def)

subsection \<open>Resource queues\<close>

lemma resQueueAttributes_Inr_iff:
  "(\<exists>a. resQueueAttributes ext q = Inr a) \<longleftrightarrow>
   ParseFloat ext (MaxCost q) \<noteq> None \<and> ParseFloat ext (MinCost q) \<noteq> None"
  by (auto simp: resQueueAttributes_def Let_def split: option.splits)

lemma resQueueChunks_Inr_iff:
  "(\<exists>cs. resQueueChunks ext md qs = Inr cs) \<longleftrightarrow>
   (\<forall>q\<in>set qs. ParseFloat ext (MaxCost q) \<noteq> None \<and> ParseFloat ext (MinCost q) \<noteq> None)"
proof (induction qs)
  case Nil
  show ?case by simp
next
  case (Cons q qs)
  have "(\<exists>cs. resQueueChunks ext md (q # qs) = Inr cs) \<longleftrightarrow>
        (\<exists>a. resQueueAttributes ext q = Inr a) \<and> (\<exists>cs. resQueueChunks ext md qs = Inr cs)"
    by (cases "resQueueAttributes ext q"; cases "resQueueChunks ext md qs") simp_all
  then show ?case by (simp add: Cons.IH resQueueAttributes_Inr_iff)
qed

lemma resQueueChunks_shape:
  "resQueueChunks ext md qs = Inr cs \<Longrightarrow>
   list_all2 (\<lambda>q c. chunk_name c = ResourceQueue.Name q \<and> chunk_kind c = ''RESOURCE QUEUE'' \<and>
                (\<exists>a. resQueueAttributes ext q = Inr a \<and>
                      chunk_text c = resQueueText q a @ resQueueAnnotation ext md q)) qs cs"
  by (induction qs arbitrary: cs) (auto split: sum.splits)

subsection \<open>What is recorded for each chunk\<close>





lemma recorded_texts_emit:
  assumes "wf_file (fst st)"
  shows "recorded_texts st (emit st cs) = map (\<lambda>c. sized (chunk_text c)) cs"
proof -
  from emit_chunks [OF assms, of cs]
  have "list_all2 (\<lambda>c e. (EndByte e - StartByte e, range_text (fst (emit st cs)) e) = sized (chunk_text c))
          cs (new_entries st (emit st cs))"
    by (rule list_all2_mono) (simp add: sized_def)
  then show ?thesis
    by (simp add: recorded_texts_def list_all2_conv_all_nth list_eq_iff_nth_eq)
qed

text \<open>A printer that writes some bytes before it reads the first start offset.\<close>

lemma new_entries_after_gap:
  "new_entries st (emit (MustPrintf (fst st) g, snd st) cs)
   = new_entries (MustPrintf (fst st) g, snd st) (emit (MustPrintf (fst st) g, snd st) cs)"
  by (simp add: new_entries_def)

lemma recorded_texts_after_gap:
  assumes "wf_file (fst st)"
  shows "recorded_texts st (emit (MustPrintf (fst st) g, snd st) cs) = map (\<lambda>c. sized (chunk_text c)) cs"
proof -
  have "wf_file (fst (MustPrintf (fst st) g, snd st))" using assms by (simp add: wf_file_MustPrintf)
  from recorded_texts_emit [OF this, of cs] show ?thesis
    by (simp add: recorded_texts_def new_entries_def)
qed




section \<open>Properties of resolution and sequencing\<close>

subsection \<open>Resolution\<close>

lemma lookup_subset: "set (lookup objs n) \<subseteq> set objs"
  by (auto simp: lookup_def)

lemma resolve_miss: "lookup objs n = [] \<Longrightarrow> resolve objs (n # ns) = resolve objs ns"
  by simp

lemma resolve_hit:
  "lookup objs n = [d] \<Longrightarrow>
   resolve objs (n # ns) = (case resolve objs ns of Inl e \<Rightarrow> Inl e | Inr ds \<Rightarrow> Inr (d # ds))"
  by simp

lemma resolve_ambiguous:
  "length (lookup objs n) \<ge> 2 \<Longrightarrow> \<exists>e. resolve objs (n # ns) = Inl e"
  by (cases "lookup objs n" rule: remdups_adj.cases) simp_all

lemma lookup_cases:
  obtains (miss) "lookup objs n = []"
  | (hit) d where "lookup objs n = [d]"
  | (ambiguous) "length (lookup objs n) \<ge> 2"
  by (cases "lookup objs n" rule: remdups_adj.cases) auto

lemma resolve_append:
  "resolve objs (ns @ ms) =
     (case resolve objs ns of
        Inl e \<Rightarrow> Inl e
      | Inr ds \<Rightarrow> (case resolve objs ms of Inl e \<Rightarrow> Inl e | Inr ds' \<Rightarrow> Inr (ds @ ds')))"
proof (induction ns)
  case Nil
  show ?case by (simp split: sum.split)
next
  case (Cons n ns)
  show ?case
    by (cases "lookup objs n" rule: remdups_adj.cases) (simp_all add: Cons.IH split: sum.split)
qed

lemma resolve_drop_unresolved:
  "resolve objs (filter (\<lambda>m. lookup objs m \<noteq> []) ns) = resolve objs ns"
proof (induction ns)
  case Nil
  show ?case by simp
next
  case (Cons n ns)
  show ?case
  proof (cases "lookup objs n = []")
    case True
    then show ?thesis by (simp add: Cons.IH)
  next
    case False
    then show ?thesis
      by (cases "lookup objs n" rule: remdups_adj.cases) (simp_all add: Cons.IH)
  qed
qed

lemma resolve_drop_name:
  assumes "lookup objs n = []"
  shows "resolve objs (filter (\<lambda>m. m \<noteq> n) ns) = resolve objs ns"
proof -
  have "filter (\<lambda>m. lookup objs m \<noteq> []) (filter (\<lambda>m. m \<noteq> n) ns) = filter (\<lambda>m. lookup objs m \<noteq> []) ns"
    using assms by (auto intro: filter_cong)
  then show ?thesis
    using resolve_drop_unresolved [of objs "filter (\<lambda>m. m \<noteq> n) ns"] resolve_drop_unresolved [of objs ns]
    by simp
qed

lemma resolve_set:
  "resolve objs ns = Inr ds \<Longrightarrow> d \<in> set ds \<longleftrightarrow> (\<exists>n\<in>set ns. lookup objs n = [d])"
proof (induction ns arbitrary: ds)
  case Nil
  then show ?case by simp
next
  case (Cons n ns)
  show ?case
  proof (cases objs n rule: lookup_cases)
    case miss
    with Cons show ?thesis by simp
  next
    case (hit d')
    with Cons.prems obtain ds' where ds': "resolve objs ns = Inr ds'" "ds = d' # ds'"
      by (cases "resolve objs ns") auto
    from Cons.IH [OF ds'(1)] hit ds'(2) show ?thesis by auto
  next
    case ambiguous
    from resolve_ambiguous [OF this, of ns] Cons.prems show ?thesis by simp
  qed
qed

lemma resolve_in_objs: "resolve objs ns = Inr ds \<Longrightarrow> set ds \<subseteq> set objs"
proof
  fix d assume "resolve objs ns = Inr ds" "d \<in> set ds"
  then obtain n where "lookup objs n = [d]" by (auto simp: resolve_set)
  with lookup_subset [of objs n] show "d \<in> set objs" by simp
qed

subsection \<open>The graph\<close>

lemma build_graph_nodes: "build_graph refs objs rs = Inr g \<Longrightarrow> map fst g = rs"
  by (induction rs arbitrary: g) (auto split: sum.splits)

lemma build_graph_deps:
  "build_graph refs objs rs = Inr g \<Longrightarrow> r \<in> set rs \<Longrightarrow> resolve objs (refs r) = Inr (deps_of g r)"
proof (induction rs arbitrary: g)
  case Nil
  then show ?case by simp
next
  case (Cons r0 rs)
  from Cons.prems(1) obtain ds g' where
    a: "resolve objs (refs r0) = Inr ds" "build_graph refs objs rs = Inr g'" "g = (r0, ds) # g'"
    by (auto split: sum.splits)
  show ?case
  proof (cases "r = r0")
    case True
    with a show ?thesis by (simp add: deps_of_def)
  next
    case False
    with Cons.prems(2) have "r \<in> set rs" by simp
    from Cons.IH [OF a(2) this] False a(3) show ?thesis by (simp add: deps_of_def)
  qed
qed

lemma build_graph_cong:
  "(\<And>r. r \<in> set rs \<Longrightarrow> resolve objs (refs r) = resolve objs (refs' r)) \<Longrightarrow>
   build_graph refs objs rs = build_graph refs' objs rs"
proof (induction rs)
  case Nil
  show ?case by simp
next
  case (Cons r rs)
  have "build_graph refs objs rs = build_graph refs' objs rs"
    by (rule Cons.IH) (simp add: Cons.prems)
  moreover have "resolve objs (refs r) = resolve objs (refs' r)"
    by (rule Cons.prems) simp
  ultimately show ?case by (simp split: sum.split)
qed

lemma DependencyResolver_nodes: "DependencyResolver refs objs = Inr g \<Longrightarrow> nodes g = objs"
  by (simp add: DependencyResolver_def nodes_def build_graph_nodes)

lemma DependencyResolver_deps:
  "DependencyResolver refs objs = Inr g \<Longrightarrow> r \<in> set objs \<Longrightarrow> resolve objs (refs r) = Inr (deps_of g r)"
  unfolding DependencyResolver_def by (rule build_graph_deps)

lemma deps_in_nodes:
  assumes "DependencyResolver refs objs = Inr g" and "r \<in> set objs"
  shows "set (deps_of g r) \<subseteq> set objs"
  by (rule resolve_in_objs [OF DependencyResolver_deps [OF assms]])

lemma set_edges: "set (edges g) = {(r, d). r \<in> set (nodes g) \<and> d \<in> set (deps_of g r)}"
  by (auto simp: edges_def)

subsection \<open>Emissions in dependency order\<close>

lemma ordered_from_snoc:
  "ordered_from deps pre (xs @ [i]) \<longleftrightarrow> ordered_from deps pre xs \<and> set (deps i) \<subseteq> set (pre @ xs)"
  by (induction xs arbitrary: pre) auto

lemma ordered_from_split:
  "ordered_from deps pre xs \<Longrightarrow> xs = ys @ i # zs \<Longrightarrow> set (deps i) \<subseteq> set (pre @ ys)"
proof (induction xs arbitrary: pre ys)
  case Nil
  then show ?case by simp
next
  case (Cons x xs)
  show ?case
  proof (cases ys)
    case Nil
    with Cons.prems show ?thesis by simp
  next
    case (Cons y ys')
    with Cons.prems have "xs = ys' @ i # zs" "y = x" "ordered_from deps (pre @ [x]) xs" by simp_all
    from Cons.IH [OF this(3) this(1)] Cons \<open>y = x\<close> show ?thesis by simp
  qed
qed

lemma least_first_split:
  "least_first deps pre xs \<Longrightarrow> xs = ys @ i # zs \<Longrightarrow> j \<in> set zs \<Longrightarrow>
   set (deps j) \<subseteq> set (pre @ ys) \<Longrightarrow> item_key i \<le> item_key j"
proof (induction xs arbitrary: pre ys)
  case Nil
  then show ?case by simp
next
  case (Cons x xs)
  show ?case
  proof (cases ys)
    case Nil
    with Cons.prems show ?thesis by simp
  next
    case (Cons y ys')
    with Cons.prems have a: "xs = ys' @ i # zs" "y = x" "least_first deps (pre @ [x]) xs" by simp_all
    from Cons.prems(4) Cons a(2) have "set (deps j) \<subseteq> set ((pre @ [x]) @ ys')" by simp
    from Cons.IH [OF a(3) a(1) Cons.prems(3) this] show ?thesis .
  qed
qed

subsection \<open>The loop\<close>

lemma ready_subset: "set (ready deps done rem) \<subseteq> set rem"
  by (auto simp: ready_def)

lemma ready_iff: "i \<in> set (ready deps done rem) \<longleftrightarrow> i \<in> set rem \<and> set (deps i) \<subseteq> set done"
  by (auto simp: ready_def unresolved_def filter_empty_conv)

lemma next_in_ready:
  "ready deps done rem \<noteq> [] \<Longrightarrow> arg_min_list item_key (ready deps done rem) \<in> set (ready deps done rem)"
  by (rule arg_min_list_in)

lemma next_least:
  assumes "j \<in> set (ready deps done rem)"
  shows "item_key (arg_min_list item_key (ready deps done rem)) \<le> item_key j"
proof -
  from assms have ne: "ready deps done rem \<noteq> []" by auto
  have "item_key (arg_min_list item_key (ready deps done rem)) = Min (item_key ` set (ready deps done rem))"
    by (rule f_arg_min_list_f [OF ne])
  also have "\<dots> \<le> item_key j" using assms by simp
  finally show ?thesis .
qed

lemma kahn_Nil: "kahn deps done [] = Inr done"
  by (subst kahn.simps) simp

lemma kahn_stuck:
  "rem \<noteq> [] \<Longrightarrow> ready deps done rem = [] \<Longrightarrow>
   kahn deps done rem = Inl (UnbreakableCycle (cycle_members deps rem))"
  by (subst kahn.simps) simp

lemma kahn_step:
  "rem \<noteq> [] \<Longrightarrow> ready deps done rem \<noteq> [] \<Longrightarrow>
   kahn deps done rem =
   kahn deps (done @ [arg_min_list item_key (ready deps done rem)])
     (remove1 (arg_min_list item_key (ready deps done rem)) rem)"
  by (subst kahn.simps) simp

text \<open>What a successful run of the loop returns.\<close>

lemma kahn_Inr:
  "kahn deps done rem = Inr res \<Longrightarrow>
   \<exists>out. res = done @ out \<and> mset out = mset rem \<and> ordered_from deps done out \<and>
         least_first deps done out"
proof (induction deps "done" rem arbitrary: res rule: kahn.induct)
  case (1 deps "done" rem)
  show ?case
  proof (cases "rem = []")
    case True
    with "1.prems" show ?thesis by (simp add: kahn_Nil)
  next
    case False
    let ?i = "arg_min_list item_key (ready deps done rem)"
    from False "1.prems" have r: "ready deps done rem \<noteq> []"
      using kahn_stuck [OF False, of deps "done"] by auto
    from "1.prems" kahn_step [OF False r] have k: "kahn deps (done @ [?i]) (remove1 ?i rem) = Inr res"
      by simp
    from "1.IH" [OF False r k] obtain out where
      out: "res = (done @ [?i]) @ out" "mset out = mset (remove1 ?i rem)"
        "ordered_from deps (done @ [?i]) out" "least_first deps (done @ [?i]) out"
      by blast
    from next_in_ready [OF r] have ir: "?i \<in> set (ready deps done rem)" .
    then have i: "?i \<in> set rem" "set (deps ?i) \<subseteq> set done" by (simp_all add: ready_iff)
    have m: "mset (?i # out) = mset rem"
      using out(2) i(1) by simp
    have l: "\<forall>j\<in>set out. set (deps j) \<subseteq> set done \<longrightarrow> item_key ?i \<le> item_key j"
    proof (intro ballI impI)
      fix j assume "j \<in> set out" "set (deps j) \<subseteq> set done"
      moreover have "j \<in> set rem"
      proof -
        from out(2) have "set out = set (remove1 ?i rem)" by (rule mset_eq_setD)
        with \<open>j \<in> set out\<close> set_remove1_subset [of ?i rem] show ?thesis by blast
      qed
      ultimately have "j \<in> set (ready deps done rem)" by (simp add: ready_iff)
      then show "item_key ?i \<le> item_key j" by (rule next_least)
    qed
    show ?thesis
      using out(1,3,4) m i(2) l by (intro exI [of _ "?i # out"]) simp
  qed
qed

text \<open>On an acyclic relation the loop does not get stuck.\<close>

lemma exists_ready:
  assumes ne: "rem \<noteq> []"
    and closed: "\<forall>i\<in>set rem. set (deps i) \<subseteq> set done \<union> set rem"
    and acyc: "acyclic {(i, d). i \<in> set rem \<and> d \<in> set (deps i)}"
  shows "ready deps done rem \<noteq> []"
proof -
  let ?E = "{(i, d). i \<in> set rem \<and> d \<in> set rem \<and> d \<in> set (deps i)}"
  have "?E \<subseteq> set rem \<times> set rem" by auto
  then have fin: "finite ?E" by (rule finite_subset) simp
  have "acyclic ?E" by (rule acyclic_subset [OF acyc]) auto
  from finite_acyclic_wf_converse [OF fin this] have "wf (?E\<inverse>)" .
  moreover from ne obtain x where "x \<in> set rem" by (cases rem) auto
  ultimately obtain z where z: "z \<in> set rem" "\<And>y. (y, z) \<in> ?E\<inverse> \<Longrightarrow> y \<notin> set rem"
    by (rule wfE_min) blast
  have "set (deps z) \<subseteq> set done"
  proof
    fix d assume d: "d \<in> set (deps z)"
    with closed z(1) have "d \<in> set done \<union> set rem" by blast
    moreover have "d \<notin> set rem"
    proof
      assume "d \<in> set rem"
      with d z(1) have "(d, z) \<in> ?E\<inverse>" by simp
      from z(2) [OF this] \<open>d \<in> set rem\<close> show False by simp
    qed
    ultimately show "d \<in> set done" by simp
  qed
  with z(1) have "z \<in> set (ready deps done rem)" by (simp add: ready_iff)
  then show ?thesis by auto
qed

lemma kahn_acyclic:
  "\<forall>i\<in>set rem. set (deps i) \<subseteq> set done \<union> set rem \<Longrightarrow>
   acyclic {(i, d). i \<in> set rem \<and> d \<in> set (deps i)} \<Longrightarrow>
   \<exists>res. kahn deps done rem = Inr res"
proof (induction deps "done" rem rule: kahn.induct)
  case (1 deps "done" rem)
  show ?case
  proof (cases "rem = []")
    case True
    then show ?thesis by (simp add: kahn_Nil)
  next
    case False
    let ?i = "arg_min_list item_key (ready deps done rem)"
    from exists_ready [OF False "1.prems"] have r: "ready deps done rem \<noteq> []" .
    from next_in_ready [OF r] have i: "?i \<in> set rem" by (simp add: ready_iff)
    have c: "\<forall>j\<in>set (remove1 ?i rem). set (deps j) \<subseteq> set (done @ [?i]) \<union> set (remove1 ?i rem)"
    proof
      fix j assume "j \<in> set (remove1 ?i rem)"
      then have "j \<in> set rem" using set_remove1_subset [of ?i rem] by blast
      with "1.prems"(1) have "set (deps j) \<subseteq> set done \<union> set rem" by blast
      moreover have "set rem \<subseteq> insert ?i (set (remove1 ?i rem))"
      proof
        fix x assume "x \<in> set rem"
        then show "x \<in> insert ?i (set (remove1 ?i rem))"
          by (cases "x = ?i") (simp_all add: in_set_remove1)
      qed
      ultimately show "set (deps j) \<subseteq> set (done @ [?i]) \<union> set (remove1 ?i rem)" by auto
    qed
    have a: "acyclic {(j, d). j \<in> set (remove1 ?i rem) \<and> d \<in> set (deps j)}"
      by (rule acyclic_subset [OF "1.prems"(2)]) (use set_remove1_subset [of ?i rem] in auto)
    from "1.IH" [OF False r c a] kahn_step [OF False r] show ?thesis
      by simp
  qed
qed

subsection \<open>Acyclic graphs need no shell\<close>

lemma type_edges_subset: "set (type_edges g) \<subseteq> set (edges g)"
  by (auto simp: type_edges_def)

lemma component_cycle:
  assumes "y \<in> set (component g r)"
  shows "(r, r) \<in> (set (edges g))\<^sup>+"
proof -
  from assms have "(r, y) \<in> (set (type_edges g))\<^sup>+" "(y, r) \<in> (set (type_edges g))\<^sup>+"
    by (simp_all add: component_def)
  then have "(r, r) \<in> (set (type_edges g))\<^sup>+" by (rule trancl_trans)
  with trancl_mono [OF _ type_edges_subset] show ?thesis by blast
qed

lemma acyclic_component: "acyclic (set (edges g)) \<Longrightarrow> component g r = []"
proof (rule ccontr)
  assume a: "acyclic (set (edges g))" and "component g r \<noteq> []"
  then obtain y where "y \<in> set (component g r)" by (cases "component g r") auto
  from component_cycle [OF this] a show False by (simp add: acyclic_def)
qed

lemma acyclic_not_promoted: "acyclic (set (edges g)) \<Longrightarrow> \<not> promoted g r"
  by (simp add: promoted_def acyclic_component)

lemma acyclic_items: "acyclic (set (edges g)) \<Longrightarrow> items g = map Full (nodes g)"
  by (simp add: items_def acyclic_not_promoted)

lemma acyclic_item_deps:
  "acyclic (set (edges g)) \<Longrightarrow> item_deps g (Full r) = map Full (deps_of g r)"
  by (simp add: acyclic_not_promoted)

lemma full_edges_trancl:
  assumes "(a, b) \<in> {(i, d). i \<in> Full ` set (nodes g) \<and> d \<in> Full ` set (deps_of g (emitted_record i))}\<^sup>+"
  shows "(emitted_record a, emitted_record b) \<in> (set (edges g))\<^sup>+"
  using assms
proof (induction rule: trancl_induct)
  case (base y)
  then have "(emitted_record a, emitted_record y) \<in> set (edges g)"
    by (auto simp: set_edges)
  then show ?case by (rule r_into_trancl)
next
  case (step y z)
  from step.hyps(2) have "(emitted_record y, emitted_record z) \<in> set (edges g)"
    by (auto simp: set_edges)
  with step.IH show ?case by (rule trancl_into_trancl)
qed

lemma acyclic_full_edges:
  assumes "acyclic (set (edges g))"
  shows "acyclic {(i, d). i \<in> set (items g) \<and> d \<in> set (item_deps g i)}"
proof -
  have eq: "{(i, d). i \<in> set (items g) \<and> d \<in> set (item_deps g i)}
        = {(i, d). i \<in> Full ` set (nodes g) \<and> d \<in> Full ` set (deps_of g (emitted_record i))}"
    using assms by (auto simp: acyclic_items acyclic_not_promoted)
  show ?thesis
    unfolding eq
  proof (rule acyclicI, rule allI, rule notI)
    fix x
    assume "(x, x) \<in> {(i, d). i \<in> Full ` set (nodes g) \<and> d \<in> Full ` set (deps_of g (emitted_record i))}\<^sup>+"
    from full_edges_trancl [OF this] assms show False by (simp add: acyclic_def)
  qed
qed

lemma acyclic_closed:
  assumes g: "DependencyResolver refs objs = Inr g" and a: "acyclic (set (edges g))"
  shows "\<forall>i\<in>set (items g). set (item_deps g i) \<subseteq> set [] \<union> set (items g)"
proof
  fix i assume "i \<in> set (items g)"
  then obtain r where r: "i = Full r" "r \<in> set objs"
    using a by (auto simp: acyclic_items DependencyResolver_nodes [OF g])
  from deps_in_nodes [OF g r(2)] r(1) a
  show "set (item_deps g i) \<subseteq> set [] \<union> set (items g)"
    by (auto simp: acyclic_items acyclic_not_promoted DependencyResolver_nodes [OF g])
qed

lemma sequencer_acyclic:
  assumes g: "DependencyResolver refs objs = Inr g" and a: "acyclic (set (edges g))"
  shows "\<exists>out. TopologicalSequencer g = Inr out \<and> mset out = mset (map Full objs) \<and>
               ordered_from (item_deps g) [] out"
proof -
  from kahn_acyclic [OF acyclic_closed [OF g a] acyclic_full_edges [OF a]]
  obtain res where res: "kahn (item_deps g) [] (items g) = Inr res" by blast
  from kahn_Inr [OF res] obtain out where
    "res = [] @ out" "mset out = mset (items g)" "ordered_from (item_deps g) [] out"
    by blast
  with res a show ?thesis
    by (simp add: TopologicalSequencer_def acyclic_items DependencyResolver_nodes [OF g])
qed

lemma acyclic_set_iff:
  "acyclic (set es) \<longleftrightarrow> list_all (\<lambda>e. (fst e, fst e) \<notin> (set es)\<^sup>+) es"
proof
  assume "acyclic (set es)"
  then show "list_all (\<lambda>e. (fst e, fst e) \<notin> (set es)\<^sup>+) es"
    by (simp add: acyclic_def list_all_iff)
next
  assume l: "list_all (\<lambda>e. (fst e, fst e) \<notin> (set es)\<^sup>+) es"
  show "acyclic (set es)"
  proof (rule acyclicI, rule allI, rule notI)
    fix x assume x: "(x, x) \<in> (set es)\<^sup>+"
    then obtain z where "(x, z) \<in> set es" by (auto dest: tranclD)
    with l have "(x, x) \<notin> (set es)\<^sup>+" by (auto simp: list_all_iff)
    with x show False by simp
  qed
qed

subsection \<open>The order of the input\<close>

lemma arg_min_list_set:
  assumes "xs \<noteq> []" and "set ys = set xs" and "inj_on f (set xs)"
  shows "arg_min_list f ys = arg_min_list f xs"
proof -
  from assms(1,2) have ys: "ys \<noteq> []" by auto
  have "f (arg_min_list f ys) = Min (f ` set ys)" by (rule f_arg_min_list_f [OF ys])
  also have "\<dots> = f (arg_min_list f xs)"
    unfolding assms(2) by (rule f_arg_min_list_f [OF assms(1), symmetric])
  finally have "f (arg_min_list f ys) = f (arg_min_list f xs)" .
  moreover have "arg_min_list f ys \<in> set xs"
    using arg_min_list_in [OF ys, of f] assms(2) by simp
  moreover have "arg_min_list f xs \<in> set xs" by (rule arg_min_list_in [OF assms(1)])
  ultimately show ?thesis using assms(3) by (simp add: inj_on_def)
qed

lemma mset_lookup: "mset objs' = mset objs \<Longrightarrow> mset (lookup objs' n) = mset (lookup objs n)"
  by (simp add: lookup_def)

lemma lookup_perm_Nil: "mset objs' = mset objs \<Longrightarrow> lookup objs n = [] \<Longrightarrow> lookup objs' n = []"
  using mset_lookup [of objs' objs n] by simp

lemma lookup_perm_single: "mset objs' = mset objs \<Longrightarrow> lookup objs n = [d] \<Longrightarrow> lookup objs' n = [d]"
  using mset_lookup [of objs' objs n] by simp

lemma resolve_perm_Inr:
  assumes "mset objs' = mset objs"
  shows "resolve objs ns = Inr ds \<Longrightarrow> resolve objs' ns = Inr ds"
proof (induction ns arbitrary: ds)
  case Nil
  then show ?case by simp
next
  case (Cons n ns)
  show ?case
  proof (cases "lookup objs n" rule: remdups_adj.cases)
    case 1
    from lookup_perm_Nil [OF assms 1] 1 Cons show ?thesis by simp
  next
    case (2 d)
    from Cons.prems 2 obtain ds' where ds': "resolve objs ns = Inr ds'" "ds = d # ds'"
      by (cases "resolve objs ns") auto
    from Cons.IH [OF ds'(1)] lookup_perm_single [OF assms 2] ds'(2) show ?thesis by simp
  next
    case (3 d d' ds')
    with Cons.prems show ?thesis by simp
  qed
qed

lemma resolve_perm:
  assumes "mset objs' = mset objs"
  shows "resolve objs' ns = Inr ds \<longleftrightarrow> resolve objs ns = Inr ds"
  using resolve_perm_Inr [OF assms] resolve_perm_Inr [OF assms [symmetric]] by blast

lemma build_graph_Inr:
  "(\<And>r. r \<in> set rs \<Longrightarrow> \<exists>ds. resolve objs (refs r) = Inr ds) \<Longrightarrow>
   \<exists>g. build_graph refs objs rs = Inr g"
proof (induction rs)
  case Nil
  show ?case by simp
next
  case (Cons r rs)
  have "\<exists>g. build_graph refs objs rs = Inr g" by (rule Cons.IH) (simp add: Cons.prems)
  moreover have "\<exists>ds. resolve objs (refs r) = Inr ds" by (rule Cons.prems) simp
  ultimately show ?case by auto
qed

lemma deps_of_outside: "r \<notin> set (nodes g) \<Longrightarrow> deps_of g r = []"
  by (simp add: deps_of_def nodes_def map_of_eq_None_iff [THEN iffD2])

lemma DependencyResolver_perm:
  assumes p: "mset objs' = mset objs" and g: "DependencyResolver refs objs = Inr g"
  shows "\<exists>g'. DependencyResolver refs objs' = Inr g' \<and> nodes g' = objs' \<and> deps_of g' = deps_of g"
proof -
  from p have s: "set objs' = set objs" by (rule mset_eq_setD)
  have "\<exists>ds. resolve objs' (refs r) = Inr ds" if "r \<in> set objs'" for r
  proof -
    from that s have "r \<in> set objs" by simp
    from DependencyResolver_deps [OF g this] resolve_perm [OF p] show ?thesis by blast
  qed
  from build_graph_Inr [of objs' objs' refs, OF this] obtain g' where
    g': "DependencyResolver refs objs' = Inr g'"
    by (auto simp: DependencyResolver_def)
  have "deps_of g' r = deps_of g r" for r
  proof (cases "r \<in> set objs")
    case True
    from DependencyResolver_deps [OF g True] resolve_perm [OF p]
    have "resolve objs' (refs r) = Inr (deps_of g r)" by blast
    moreover from True s have "r \<in> set objs'" by simp
    from DependencyResolver_deps [OF g' this] have "resolve objs' (refs r) = Inr (deps_of g' r)" .
    ultimately show ?thesis by simp
  next
    case False
    with s show ?thesis
      by (simp add: deps_of_outside DependencyResolver_nodes [OF g] DependencyResolver_nodes [OF g'])
  qed
  then have "deps_of g' = deps_of g" by (rule ext)
  with g' DependencyResolver_nodes [OF g'] show ?thesis by blast
qed

subsection \<open>The sequencer on a permuted graph\<close>

lemma set_type_edges:
  "set (type_edges g) = {(r, d). (r, d) \<in> set (edges g) \<and> is_type_kind (Kind r) \<and> is_type_kind (Kind d)}"
  by (auto simp: type_edges_def)

lemma perm_edges:
  assumes "mset (nodes g') = mset (nodes g)" and "deps_of g' = deps_of g"
  shows "set (edges g') = set (edges g)" and "set (type_edges g') = set (type_edges g)"
proof -
  from assms(1) have "set (nodes g') = set (nodes g)" by (rule mset_eq_setD)
  with assms(2) show "set (edges g') = set (edges g)" by (simp add: set_edges)
  then show "set (type_edges g') = set (type_edges g)" by (simp add: set_type_edges)
qed

lemma perm_component:
  assumes "mset (nodes g') = mset (nodes g)" and "deps_of g' = deps_of g"
  shows "mset (component g' r) = mset (component g r)"
  using assms(1) by (simp add: component_def perm_edges(2) [OF assms])

lemma component_subset: "set (component g r) \<subseteq> set (nodes g)"
  by (auto simp: component_def)

lemma perm_promoted:
  assumes p: "mset (nodes g') = mset (nodes g)" and d: "deps_of g' = deps_of g"
    and inj: "inj_on record_key (set (nodes g))"
  shows "promoted g' r = promoted g r"
proof -
  from perm_component [OF p d] have s: "set (component g' r) = set (component g r)"
    by (rule mset_eq_setD)
  show ?thesis
  proof (cases "list_ex (\<lambda>y. y \<noteq> r) (component g r)")
    case True
    then have ne: "component g r \<noteq> []" by auto
    have "inj_on record_key (set (component g r))"
      by (rule inj_on_subset [OF inj component_subset])
    from arg_min_list_set [OF ne s this] True s show ?thesis
      by (simp add: promoted_def list_ex_iff)
  next
    case False
    with s show ?thesis by (simp add: promoted_def list_ex_iff)
  qed
qed

lemma perm_items:
  assumes p: "mset (nodes g') = mset (nodes g)" and d: "deps_of g' = deps_of g"
    and inj: "inj_on record_key (set (nodes g))"
  shows "mset (items g') = mset (items g)"
proof -
  have "promoted g' = promoted g" by (rule ext) (rule perm_promoted [OF assms])
  with p show ?thesis by (simp add: items_def)
qed

lemma perm_item_deps:
  assumes p: "mset (nodes g') = mset (nodes g)" and d: "deps_of g' = deps_of g"
    and inj: "inj_on record_key (set (nodes g))"
  shows "item_deps g' = item_deps g"
proof
  fix i
  have pr: "promoted g' = promoted g" by (rule ext) (rule perm_promoted [OF assms])
  have "set (component g' r) = set (component g r)" for r
    using perm_component [OF p d, of r] by (rule mset_eq_setD)
  with pr d show "item_deps g' i = item_deps g i" by (cases i) simp_all
qed

lemma inj_on_item_key:
  assumes "inj_on record_key (set (nodes g))"
  shows "inj_on item_key (set (items g))"
proof (rule inj_onI)
  fix a b assume a: "a \<in> set (items g)" and b: "b \<in> set (items g)" and k: "item_key a = item_key b"
  from a b have "emitted_record a \<in> set (nodes g)" "emitted_record b \<in> set (nodes g)"
    by (auto simp: items_def)
  moreover from k have "record_key (emitted_record a) = record_key (emitted_record b)"
    by (cases a; cases b) simp_all
  ultimately have "emitted_record a = emitted_record b" using assms by (simp add: inj_on_def)
  with k show "a = b" by (cases a; cases b) simp_all
qed

lemma set_ready: "set rem' = set rem \<Longrightarrow> set (ready deps done rem') = set (ready deps done rem)"
  by (auto simp: ready_iff)

lemma kahn_perm_Inr:
  "mset rem' = mset rem \<Longrightarrow> inj_on item_key (set rem) \<Longrightarrow>
   kahn deps done rem = Inr out \<Longrightarrow> kahn deps done rem' = Inr out"
proof (induction deps "done" rem arbitrary: rem' rule: kahn.induct)
  case (1 deps "done" rem)
  from "1.prems"(1) have s: "set rem' = set rem" by (rule mset_eq_setD)
  show ?case
  proof (cases "rem = []")
    case True
    with "1.prems" show ?thesis by (simp add: kahn_Nil)
  next
    case False
    with "1.prems"(1) have ne': "rem' \<noteq> []" by auto
    let ?i = "arg_min_list item_key (ready deps done rem)"
    from False "1.prems"(3) have r: "ready deps done rem \<noteq> []"
      using kahn_stuck [OF False, of deps "done"] by auto
    have r': "ready deps done rem' \<noteq> []"
    proof
      assume "ready deps done rem' = []"
      with set_ready [OF s, of deps "done"] have "set (ready deps done rem) = {}" by simp
      with r show False by simp
    qed
    have "inj_on item_key (set (ready deps done rem))"
      by (rule inj_on_subset [OF "1.prems"(2) ready_subset])
    from arg_min_list_set [OF r set_ready [OF s] this]
    have i: "arg_min_list item_key (ready deps done rem') = ?i" .
    from "1.prems"(3) kahn_step [OF False r] have k: "kahn deps (done @ [?i]) (remove1 ?i rem) = Inr out"
      by simp
    have m: "mset (remove1 ?i rem') = mset (remove1 ?i rem)"
      using "1.prems"(1) by simp
    have j: "inj_on item_key (set (remove1 ?i rem))"
      by (rule inj_on_subset [OF "1.prems"(2) set_remove1_subset])
    from "1.IH" [OF False r m j k] kahn_step [OF ne' r'] i show ?thesis by simp
  qed
qed

lemma sequencer_perm_Inr:
  assumes p: "mset (nodes g') = mset (nodes g)" and d: "deps_of g' = deps_of g"
    and inj: "inj_on record_key (set (nodes g))"
    and r: "TopologicalSequencer g = Inr out"
  shows "TopologicalSequencer g' = Inr out"
proof -
  from r have "kahn (item_deps g) [] (items g) = Inr out" by (simp add: TopologicalSequencer_def)
  from kahn_perm_Inr [OF perm_items [OF p d inj] inj_on_item_key [OF inj] this]
  show ?thesis by (simp add: TopologicalSequencer_def perm_item_deps [OF p d inj])
qed

lemma EmissionSequence_perm_Inr:
  assumes p: "mset objs' = mset objs" and inj: "inj_on record_key (set objs)"
    and r: "sequence_refs refs objs = Inr out"
  shows "sequence_refs refs objs' = Inr out"
proof -
  from r obtain g where g: "DependencyResolver refs objs = Inr g" and t: "TopologicalSequencer g = Inr out"
    by (cases "DependencyResolver refs objs") (simp_all add: sequence_refs_def)
  from DependencyResolver_perm [OF p g] obtain g' where
    g': "DependencyResolver refs objs' = Inr g'" "nodes g' = objs'" "deps_of g' = deps_of g"
    by blast
  have n: "nodes g = objs" by (rule DependencyResolver_nodes [OF g])
  have "TopologicalSequencer g' = Inr out"
    by (rule sequencer_perm_Inr [OF _ g'(3) _ t]) (simp_all add: n g'(2) p inj)
  with g'(1) show ?thesis by (simp add: sequence_refs_def)
qed

section \<open>Properties of the type queries\<close>

subsection \<open>Joins on a key\<close>

lemma key_unique:
  "distinct (map f xs) \<Longrightarrow> x \<in> set xs \<Longrightarrow> y \<in> set xs \<Longrightarrow> f x = f y \<Longrightarrow> x = y"
  by (auto simp: distinct_map dest: inj_onD)

lemma filter_key_length:
  assumes "distinct (map f xs)"
  shows "length (filter (\<lambda>x. f x = k \<and> P x) xs) \<le> 1"
  using assms
proof (induction xs)
  case Nil
  then show ?case by simp
next
  case (Cons a xs)
  show ?case
  proof (cases "f a = k")
    case True
    with Cons.prems have "\<forall>x\<in>set xs. f x \<noteq> k" by (auto simp: image_iff)
    then have "filter (\<lambda>x. f x = k \<and> P x) xs = []" by (simp add: filter_empty_conv)
    then show ?thesis by simp
  next
    case False
    with Cons show ?thesis by simp
  qed
qed

lemma filter_key_cases:
  assumes "distinct (map f xs)"
  shows "filter (\<lambda>x. f x = k \<and> P x) xs = [] \<or> (\<exists>x. filter (\<lambda>x. f x = k \<and> P x) xs = [x])"
proof -
  from filter_key_length [OF assms, of k P]
  show ?thesis by (cases "filter (\<lambda>x. f x = k \<and> P x) xs" rule: remdups_adj.cases) simp_all
qed

lemma join_key:
  assumes "distinct (map f xs)"
  shows "concat (map (\<lambda>x. if f x = k \<and> P x then [j] else []) xs)
         = (if \<exists>x\<in>set xs. f x = k \<and> P x then [j] else [])"
proof -
  have eq: "concat (map (\<lambda>x. if f x = k \<and> P x then [j] else []) xs)
            = map (\<lambda>x. j) (filter (\<lambda>x. f x = k \<and> P x) xs)"
    by (induction xs) simp_all
  from filter_key_cases [OF assms, of k P] show ?thesis
  proof
    assume e: "filter (\<lambda>x. f x = k \<and> P x) xs = []"
    then have "\<not> (\<exists>x\<in>set xs. f x = k \<and> P x)" by (simp add: filter_empty_conv)
    with e show ?thesis by (simp add: eq)
  next
    assume "\<exists>x. filter (\<lambda>x. f x = k \<and> P x) xs = [x]"
    then obtain x where x: "filter (\<lambda>x. f x = k \<and> P x) xs = [x]" ..
    then have "x \<in> set (filter (\<lambda>x. f x = k \<and> P x) xs)" by simp
    then have "\<exists>x\<in>set xs. f x = k \<and> P x" by auto
    with x show ?thesis by (simp add: eq)
  qed
qed

lemma concat_if_filter: "concat (map (\<lambda>x. if P x then [x] else []) xs) = filter P xs"
  by (induction xs) simp_all

lemma filterE_Inr:
  "(\<And>x. x \<in> set xs \<Longrightarrow> p x = Inr (q x)) \<Longrightarrow> filterE p xs = Inr (filter q xs)"
  by (induction xs) simp_all

subsection \<open>The clauses of the query on a catalog with unique oids\<close>

lemma arrayTypesWhere_unique:
  assumes "distinct (map pg_type.oid (pg_type_rows cat))"
  shows "arrayTypesWhere before5 cat t = Inr (generated_array before5 cat t)"
proof -
  let ?its = "filter (\<lambda>it. pg_type.oid it = typelem t \<and> True) (pg_type_rows cat)"
  from filter_key_cases [OF assms, of "typelem t" "\<lambda>it. True"]
  have "?its = [] \<or> (\<exists>it. ?its = [it])" .
  then show ?thesis
  proof
    assume e: "?its = []"
    then have "\<forall>it\<in>set (pg_type_rows cat). pg_type.oid it \<noteq> typelem t"
      by (simp add: filter_empty_conv)
    with e show ?thesis by (simp add: arrayTypesWhere_def generated_array_def)
  next
    assume "\<exists>it. ?its = [it]"
    then obtain it where it: "?its = [it]" ..
    then have "it \<in> set ?its" by simp
    then have m: "it \<in> set (pg_type_rows cat)" "pg_type.oid it = typelem t" by auto
    have u: "it' = it" if "it' \<in> set (pg_type_rows cat)" "pg_type.oid it' = typelem t" for it'
      using key_unique [OF assms that(1) m(1)] that(2) m(2) by simp
    have g: "generated_array before5 cat t \<longleftrightarrow>
               typelem t \<noteq> 0 \<and> (if before5 then typname t = CHR ''_'' # typname it \<and> typname it \<noteq> []
                                    else typarray it = pg_type.oid t)"
      unfolding generated_array_def using m u by blast
    have n: "(length (typname t) > 1 \<and> typname t ! 0 = CHR ''_'' \<and> drop 1 (typname t) = typname it)
             \<longleftrightarrow> (typname t = CHR ''_'' # typname it \<and> typname it \<noteq> [])"
      by (cases "typname t") auto
    from it have its: "filter (\<lambda>it. pg_type.oid it = typelem t) (pg_type_rows cat) = [it]" by simp
    show ?thesis
      unfolding g arrayTypesWhere_def its using n by auto
  qed
qed

lemma tableTypesRows_unique:
  assumes "distinct (map pg_class.oid (pg_class_rows cat))"
  shows "tableTypesRows sc cat = filter (\<lambda>j. table_type cat (alias_t sc j)) (From sc cat)"
proof -
  have "concat (map (\<lambda>c. if typrelid (alias_t sc j) = pg_class.oid c \<and> relkind c \<in> set relation_kinds
                          then [j] else []) (pg_class_rows cat))
        = (if table_type cat (alias_t sc j) then [j] else [])" for j
    using join_key [OF assms, of "typrelid (alias_t sc j)" "\<lambda>c. relkind c \<in> set relation_kinds" j]
    by (simp add: table_type_def eq_commute)
  then show ?thesis
    by (simp add: tableTypesRows_def concat_if_filter)
qed

lemma tableArrayTypesRows_unique:
  assumes c: "distinct (map pg_class.oid (pg_class_rows cat))"
    and t: "distinct (map pg_type.oid (pg_type_rows cat))"
  shows "tableArrayTypesRows sc cat = filter (\<lambda>j. table_array_type cat (alias_t sc j)) (From sc cat)"
proof -
  have inner: "concat (map (\<lambda>c. if typrelid it = pg_class.oid c \<and> relkind c \<in> set relation_kinds
                          then [j] else []) (pg_class_rows cat))
        = (if table_type cat it then [j] else [])" for j :: 'a and it
    using join_key [OF c, of "typrelid it" "\<lambda>c. relkind c \<in> set relation_kinds" j]
    by (simp add: table_type_def eq_commute)
  have "concat (map (\<lambda>it. if typelem (alias_t sc j) = pg_type.oid it
                           then concat (map (\<lambda>c. if typrelid it = pg_class.oid c \<and> relkind c \<in> set relation_kinds
                                  then [j] else []) (pg_class_rows cat))
                           else []) (pg_type_rows cat))
        = (if table_array_type cat (alias_t sc j) then [j] else [])" for j
  proof -
    have "concat (map (\<lambda>it. if typelem (alias_t sc j) = pg_type.oid it
                           then concat (map (\<lambda>c. if typrelid it = pg_class.oid c \<and> relkind c \<in> set relation_kinds
                                  then [j] else []) (pg_class_rows cat))
                           else []) (pg_type_rows cat))
          = concat (map (\<lambda>it. if pg_type.oid it = typelem (alias_t sc j) \<and> table_type cat it then [j] else [])
                      (pg_type_rows cat))"
      unfolding inner by (rule arg_cong [where f = concat], rule map_cong) auto
    also have "\<dots> = (if \<exists>it\<in>set (pg_type_rows cat). pg_type.oid it = typelem (alias_t sc j) \<and> table_type cat it
                      then [j] else [])"
      by (rule join_key [OF t])
    finally show ?thesis by (simp add: table_array_type_def)
  qed
  then show ?thesis
    by (simp add: tableArrayTypesRows_def concat_if_filter)
qed

lemma getTypeQuery_unique:
  assumes "oids_unique cat"
  shows "getTypeQuery before5 schemaFilter sc typeType cat =
     Inr (sort_key (\<lambda>r. (Type.Schema r, Type.Name r))
            (except_rows
               (Select sc (filter (\<lambda>j. schemaFilter (alias_n sc j) \<and>
                                         typtype (alias_t sc j) = typeType) (From sc cat)))
               (Select sc (filter (\<lambda>j. generated_array before5 cat (alias_t sc j)) (From sc cat)) @
                (Select sc (filter (\<lambda>j. table_type cat (alias_t sc j)) (From sc cat)) @
                 Select sc (filter (\<lambda>j. table_array_type cat (alias_t sc j)) (From sc cat))))))"
proof -
  from assms have t: "distinct (map pg_type.oid (pg_type_rows cat))"
    and c: "distinct (map pg_class.oid (pg_class_rows cat))"
    by (simp_all add: oids_unique_def)
  have "filterE (\<lambda>j. arrayTypesWhere before5 cat (alias_t sc j)) (From sc cat)
        = Inr (filter (\<lambda>j. generated_array before5 cat (alias_t sc j)) (From sc cat))"
    by (rule filterE_Inr) (rule arrayTypesWhere_unique [OF t])
  then show ?thesis
    by (simp add: getTypeQuery_def tableTypesRows_unique [OF c] tableArrayTypesRows_unique [OF c t])
qed

lemma set_except_rows: "set (except_rows xs ys) = set xs - set ys"
  by (auto simp: except_rows_def)

subsection \<open>The rows of the two queries\<close>

lemma baseTypeSelect_simps:
  "alias_t (baseTypeSelect before5 fns) = fst"
  "alias_n (baseTypeSelect before5 fns) = snd"
  "Select (baseTypeSelect before5 fns) rows = remdups (map (baseTypeRow before5 fns) rows)"
  by (simp_all add: baseTypeSelect_def)

lemma baseTypeSelect_From:
  "j \<in> set (From (baseTypeSelect before5 fns) cat) \<longleftrightarrow>
     fst j \<in> set (pg_type_rows cat) \<and> snd j \<in> set (pg_namespace_rows cat) \<and>
     typnamespace (fst j) = pg_namespace.oid (snd j)"
  by (cases j) (auto simp: baseTypeSelect_def)

lemma Oid_baseTypeRow: "Type.Oid (baseTypeRow before5 fns j) = pg_type.oid (fst j)"
  by (cases j) (simp add: baseTypeRow_def)

lemma base_rows_not_excluded:
  assumes u: "oids_unique cat"
    and q: "getTypeQuery before5 schemaFilter (baseTypeSelect before5 fns) typeType cat = Inr rows"
    and r: "r \<in> set rows"
    and t: "t \<in> set (pg_type_rows cat)" "pg_type.oid t = Type.Oid r"
  shows "\<not> excluded_type before5 cat t"
proof
  assume x: "excluded_type before5 cat t"
  let ?sc = "baseTypeSelect before5 fns"
  from u have d: "distinct (map pg_type.oid (pg_type_rows cat))" by (simp add: oids_unique_def)
  from q r have r': "r \<in> set (Select ?sc (filter (\<lambda>j. schemaFilter (alias_n ?sc j) \<and>
                                         typtype (alias_t ?sc j) = typeType) (From ?sc cat)))"
    and n: "r \<notin> set (Select ?sc (filter (\<lambda>j. generated_array before5 cat (alias_t ?sc j)) (From ?sc cat)))"
           "r \<notin> set (Select ?sc (filter (\<lambda>j. table_type cat (alias_t ?sc j)) (From ?sc cat)))"
           "r \<notin> set (Select ?sc (filter (\<lambda>j. table_array_type cat (alias_t ?sc j)) (From ?sc cat)))"
    unfolding getTypeQuery_unique [OF u] by (auto simp: set_except_rows)
  from r' obtain j where j: "j \<in> set (From ?sc cat)" "r = baseTypeRow before5 fns j"
    by (auto simp: baseTypeSelect_simps)
  from j(1) have "fst j \<in> set (pg_type_rows cat)" by (simp add: baseTypeSelect_From)
  moreover from j(2) t(2) have "pg_type.oid (fst j) = pg_type.oid t" by (simp add: Oid_baseTypeRow)
  ultimately have e: "fst j = t" using key_unique [OF d _ t(1)] by blast
  from n j have "\<not> generated_array before5 cat (fst j)" "\<not> table_type cat (fst j)"
    "\<not> table_array_type cat (fst j)"
    by (auto simp: baseTypeSelect_simps)
  with x e show False by (simp add: excluded_type_def)
qed

lemma GetBaseTypes_Oids:
  assumes "GetBaseTypes before5 fns schemaFilter cat = Inr base"
  shows "\<exists>rows. getTypeQuery before5 schemaFilter (baseTypeSelect before5 fns) ''b'' cat = Inr rows \<and>
           Type.Oid ` set base = Type.Oid ` set rows"
proof (cases "getTypeQuery before5 schemaFilter (baseTypeSelect before5 fns) ''b'' cat")
  case (Inl e)
  with assms show ?thesis by (simp add: GetBaseTypes_def)
next
  case (Inr rows)
  have "Type.Oid ` set (map (\<lambda>r. (if Receive r = ''-'' then r\<lparr>Receive := ''''\<rparr> else r))
                   (map (\<lambda>r. (if Send r = ''-'' then r\<lparr>Send := ''''\<rparr> else r)) rows))
        = Type.Oid ` set rows"
    unfolding set_map [symmetric] by (rule arg_cong [where f = set]) (induction rows, simp_all)
  with Inr assms show ?thesis
    by (cases before5) (auto simp: GetBaseTypes_def simp del: set_map)
qed

lemma compositeTypeSelect_simps:
  "alias_t (compositeTypeSelect fns) = fst"
  "alias_n (compositeTypeSelect fns) = (\<lambda>j. snd (snd j))"
  "Select (compositeTypeSelect fns) rows =
     map (\<lambda>k. compositeTypeRow fns k (filter (\<lambda>j. compositeTypeKey fns j = k) rows))
       (remdups (map (compositeTypeKey fns) rows))"
  by (simp_all add: compositeTypeSelect_def)

lemma compositeTypeSelect_From:
  "j \<in> set (From (compositeTypeSelect fns) cat) \<Longrightarrow>
     fst j \<in> set (pg_type_rows cat) \<and> snd (snd j) \<in> set (pg_namespace_rows cat) \<and>
     typnamespace (fst j) = pg_namespace.oid (snd (snd j))"
  by (cases j) (auto simp: compositeTypeSelect_def)

lemma Oid_compositeTypeRow:
  "Type.Oid (compositeTypeRow fns (compositeTypeKey fns j) grp) = pg_type.oid (fst j)"
  by (cases j) (simp add: compositeTypeRow_def compositeTypeKey_def)

lemma compositeTypeKey_oid: "compositeTypeKey fns j = compositeTypeKey fns j' \<Longrightarrow>
    pg_type.oid (fst j) = pg_type.oid (fst j')"
  by (cases j, cases j') (simp add: compositeTypeKey_def)

text \<open>On a catalog with unique oids the rows of a group are the joined rows of one type.\<close>

lemma composite_group:
  assumes u: "oids_unique cat"
    and j0: "j0 \<in> set (From (compositeTypeSelect fns) cat)" and p0: "P (fst j0) (snd (snd j0))"
  shows "filter (\<lambda>j. compositeTypeKey fns j = compositeTypeKey fns j0)
           (filter (\<lambda>j. P (fst j) (snd (snd j))) (From (compositeTypeSelect fns) cat))
         = filter (\<lambda>j. compositeTypeKey fns j = compositeTypeKey fns j0)
             (From (compositeTypeSelect fns) cat)"
proof -
  from u have dt: "distinct (map pg_type.oid (pg_type_rows cat))"
    and dn: "distinct (map pg_namespace.oid (pg_namespace_rows cat))"
    by (simp_all add: oids_unique_def)
  note m0 = compositeTypeSelect_From [OF j0]
  have "P (fst j) (snd (snd j))"
    if j: "j \<in> set (From (compositeTypeSelect fns) cat)"
      and k: "compositeTypeKey fns j = compositeTypeKey fns j0" for j
  proof -
    note m = compositeTypeSelect_From [OF j]
    from key_unique [OF dt _ _ compositeTypeKey_oid [OF k]] m m0 have t: "fst j = fst j0" by blast
    with m m0 have "pg_namespace.oid (snd (snd j)) = pg_namespace.oid (snd (snd j0))" by simp
    from key_unique [OF dn _ _ this] m m0 have "snd (snd j) = snd (snd j0)" by blast
    with t p0 show ?thesis by simp
  qed
  then show ?thesis
    unfolding filter_filter by (intro filter_cong refl) auto
qed

lemma composite_rows_not_excluded:
  assumes u: "oids_unique cat"
    and q: "getTypeQuery before5 schemaFilter (compositeTypeSelect fns) typeType cat = Inr rows"
    and r: "r \<in> set rows"
    and t: "t \<in> set (pg_type_rows cat)" "pg_type.oid t = Type.Oid r"
  shows "\<not> excluded_type before5 cat t"
proof
  assume x: "excluded_type before5 cat t"
  let ?sc = "compositeTypeSelect fns"
  let ?main = "\<lambda>t n. schemaFilter n \<and> typtype t = typeType"
  from u have d: "distinct (map pg_type.oid (pg_type_rows cat))" by (simp add: oids_unique_def)
  from q r have r': "r \<in> set (Select ?sc (filter (\<lambda>j. ?main (fst j) (snd (snd j))) (From ?sc cat)))"
    and n: "r \<notin> set (Select ?sc (filter (\<lambda>j. generated_array before5 cat (fst j)) (From ?sc cat)))"
           "r \<notin> set (Select ?sc (filter (\<lambda>j. table_type cat (fst j)) (From ?sc cat)))"
           "r \<notin> set (Select ?sc (filter (\<lambda>j. table_array_type cat (fst j)) (From ?sc cat)))"
    unfolding getTypeQuery_unique [OF u] by (auto simp: set_except_rows compositeTypeSelect_simps(1,2))
  from r' obtain j0 where j0: "j0 \<in> set (From ?sc cat)" "?main (fst j0) (snd (snd j0))"
    and r0: "r = compositeTypeRow fns (compositeTypeKey fns j0)
               (filter (\<lambda>j. compositeTypeKey fns j = compositeTypeKey fns j0)
                  (filter (\<lambda>j. ?main (fst j) (snd (snd j))) (From ?sc cat)))"
    by (auto simp: compositeTypeSelect_simps(3))
  from r0 have g: "r = compositeTypeRow fns (compositeTypeKey fns j0)
               (filter (\<lambda>j. compositeTypeKey fns j = compositeTypeKey fns j0) (From ?sc cat))"
    by (simp only: composite_group [OF u j0(1), of ?main, OF j0(2)])
  from g t(2) have "pg_type.oid (fst j0) = pg_type.oid t" by (simp add: Oid_compositeTypeRow)
  with key_unique [OF d _ t(1)] compositeTypeSelect_From [OF j0(1)] have e: "fst j0 = t" by blast
  have ex: "r \<in> set (Select ?sc (filter (\<lambda>j. Q (fst j)) (From ?sc cat)))" if "Q t" for Q
  proof -
    from that e have qj: "(\<lambda>t n. Q t) (fst j0) (snd (snd j0))" by simp
    from composite_group [OF u j0(1), of "\<lambda>t n. Q t", OF qj] g
    have "r = compositeTypeRow fns (compositeTypeKey fns j0)
               (filter (\<lambda>j. compositeTypeKey fns j = compositeTypeKey fns j0)
                  (filter (\<lambda>j. Q (fst j)) (From ?sc cat)))"
      by simp
    moreover from j0(1) that e have "compositeTypeKey fns j0
        \<in> set (remdups (map (compositeTypeKey fns) (filter (\<lambda>j. Q (fst j)) (From ?sc cat))))"
      by auto
    ultimately show ?thesis
      unfolding compositeTypeSelect_simps(3) set_map by (rule image_eqI)
  qed
  from x n ex show False unfolding excluded_type_def by blast
qed

section \<open>Properties of the dependency queries\<close>

subsection \<open>The functions a base type depends upon\<close>

lemma foldl_appendDependency:
  "foldl (\<lambda>m d. appendDependency m (kf d) (vf d)) m0 rows k
   = m0 k @ map vf (filter (\<lambda>d. kf d = k) rows)"
  by (induction rows arbitrary: m0) (simp_all add: appendDependency_def)

lemma ConstructBaseTypeDependencies5_eq:
  "ConstructBaseTypeDependencies5 fns schemaFilter cat types =
     (case pgCatalogOid cat of
        Inl err \<Rightarrow> Inl err
      | Inr k \<Rightarrow>
          Inr (map (\<lambda>t. if Type.Type t = ''b''
                         then t\<lparr>Type.DependsUpon :=
                                  map ReferencedObject
                                    (filter (\<lambda>d. Dependency.Oid d = Type.Oid t)
                                       (dependencyResults5 fns schemaFilter cat k))\<rparr>
                         else t) types))"
  by (simp add: ConstructBaseTypeDependencies5_def setBaseTypeDependencies_def Let_def
      foldl_appendDependency split: sum.split)

lemma ConstructBaseTypeDependencies4_eq:
  "ConstructBaseTypeDependencies4 fns schemaFilter cat types funcInfoMap =
     (case pgCatalogOid cat of
        Inl err \<Rightarrow> Inl err
      | Inr k \<Rightarrow>
          Inr (map (\<lambda>t. if Type.Type t = ''b''
                         then t\<lparr>Type.DependsUpon :=
                                  map (\<lambda>d. dependencyStr funcInfoMap (ReferencedOid d))
                                    (filter (\<lambda>d. OidDependency.Oid d = Type.Oid t)
                                       (dependencyResults4 fns schemaFilter cat k))\<rparr>
                         else t) types))"
  by (simp add: ConstructBaseTypeDependencies4_def setBaseTypeDependencies_def Let_def
      foldl_appendDependency split: sum.split)

lemma scalar_subquery_Inr:
  "scalar_subquery xs = Inr k \<longleftrightarrow> (xs = [] \<and> k = None) \<or> (\<exists>x. xs = [x] \<and> k = Some x)"
  by (cases xs rule: scalar_subquery.cases) auto

lemma scalar_subquery_returns: "(\<exists>k. scalar_subquery xs = Inr k) \<longleftrightarrow> length xs \<le> 1"
  by (cases xs rule: scalar_subquery.cases) auto

lemma pgCatalogOid_returns:
  "(\<exists>k. pgCatalogOid cat = Inr k) \<longleftrightarrow>
     length (filter (\<lambda>n. nspname n = ''pg_catalog'') (pg_namespace_rows cat)) \<le> 1"
  by (simp add: pgCatalogOid_def scalar_subquery_returns)

text \<open>
  The join condition on the namespace of the function keeps exactly the functions that
  are not built in, provided the catalog has the namespace \<^verbatim>\<open>pg_catalog\<close>.
\<close>

lemma notInNamespace_iff:
  assumes "pgCatalogOid cat = Inr k"
  shows "notInNamespace p k \<longleftrightarrow>
           (\<exists>n\<in>set (pg_namespace_rows cat). nspname n = ''pg_catalog'') \<and> \<not> builtin_function cat p"
proof -
  let ?ns = "filter (\<lambda>n. nspname n = ''pg_catalog'') (pg_namespace_rows cat)"
  from assms have "(map pg_namespace.oid ?ns = [] \<and> k = None) \<or>
                   (\<exists>x. map pg_namespace.oid ?ns = [x] \<and> k = Some x)"
    by (simp add: pgCatalogOid_def scalar_subquery_Inr)
  then show ?thesis
  proof
    assume e: "map pg_namespace.oid ?ns = [] \<and> k = None"
    then have "?ns = []" by simp
    then have "\<not> (\<exists>n\<in>set (pg_namespace_rows cat). nspname n = ''pg_catalog'')"
      by (simp add: filter_empty_conv)
    with e show ?thesis by (simp add: notInNamespace_def)
  next
    assume "\<exists>x. map pg_namespace.oid ?ns = [x] \<and> k = Some x"
    then obtain x where x: "map pg_namespace.oid ?ns = [x]" "k = Some x" by auto
    from x(1) obtain n0 where n0: "?ns = [n0]" "pg_namespace.oid n0 = x" by auto
    have m: "n \<in> set (pg_namespace_rows cat) \<and> nspname n = ''pg_catalog'' \<longleftrightarrow> n = n0" for n
    proof -
      have "n \<in> set ?ns \<longleftrightarrow> n = n0" unfolding n0(1) by simp
      then show ?thesis by simp
    qed
    from m [of n0] have ex: "\<exists>n\<in>set (pg_namespace_rows cat). nspname n = ''pg_catalog''" by auto
    have "builtin_function cat p \<longleftrightarrow> pg_namespace.oid n0 = pronamespace p"
      unfolding builtin_function_def by (metis m)
    with ex x(2) n0(2) show ?thesis by (auto simp: notInNamespace_def)
  qed
qed

lemma set_dependencyRows5:
  "set (dependencyRows5 fns schemaFilter cat k) =
     {(d, p, t, n). d \<in> set (pg_depend_rows cat) \<and> p \<in> set (pg_proc_rows cat) \<and>
        t \<in> set (pg_type_rows cat) \<and> n \<in> set (pg_namespace_rows cat) \<and>
        refobjid d = pg_proc.oid p \<and> notInNamespace p k \<and>
        objid d = pg_type.oid t \<and> typtype t = ''b'' \<and>
        pg_namespace.oid n = pronamespace p \<and>
        schemaFilter n \<and> refclassid d = regclass fns ''pg_proc'' \<and> deptype d = ''n''}"
  by (auto simp: dependencyRows5_def)

lemma set_dependencyRows4:
  "set (dependencyRows4 fns schemaFilter cat k) =
     {(d, p, t, n). d \<in> set (pg_depend_rows cat) \<and> p \<in> set (pg_proc_rows cat) \<and>
        t \<in> set (pg_type_rows cat) \<and> n \<in> set (pg_namespace_rows cat) \<and>
        refobjid d = pg_proc.oid p \<and> notInNamespace p k \<and>
        objid d = pg_type.oid t \<and> typtype t = ''b'' \<and>
        pg_namespace.oid n = typnamespace t \<and>
        schemaFilter n \<and> refclassid d = regclass fns ''pg_proc'' \<and> deptype d = ''n''}"
  by (auto simp: dependencyRows4_def)

text \<open>The entries a base type gets, as a set.\<close>

lemma dependencyResults5_set:
  assumes "pgCatalogOid cat = Inr k"
  shows "set (map ReferencedObject
                (filter (\<lambda>d. Dependency.Oid d = toid) (dependencyResults5 fns schemaFilter cat k)))
         = {referencedObject fns p n |p n t.
              p \<in> set (pg_proc_rows cat) \<and> n \<in> set (pg_namespace_rows cat) \<and>
              t \<in> set (pg_type_rows cat) \<and> pg_type.oid t = toid \<and> typtype t = ''b'' \<and>
              type_uses fns cat toid p \<and>
              (\<exists>c\<in>set (pg_namespace_rows cat). nspname c = ''pg_catalog'') \<and>
              \<not> builtin_function cat p \<and>
              pg_namespace.oid n = pronamespace p \<and> schemaFilter n}"
    (is "?L = ?R")
proof (rule set_eqI)
  fix m
  have "m \<in> ?L \<longleftrightarrow> (\<exists>d p t n. (d, p, t, n) \<in> set (dependencyRows5 fns schemaFilter cat k) \<and>
                          pg_type.oid t = toid \<and> m = referencedObject fns p n)"
    by (auto simp: dependencyResults5_def dependencyRow_def image_iff) force
  also have "\<dots> \<longleftrightarrow> m \<in> ?R"
    unfolding set_dependencyRows5 notInNamespace_iff [OF assms] type_uses_def
    by (simp only: mem_Collect_eq prod.case) (rule iffI; clarify; fast)
  finally show "m \<in> ?L \<longleftrightarrow> m \<in> ?R" .
qed

lemma dependencyResults4_set:
  assumes "pgCatalogOid cat = Inr k"
  shows "set (map (\<lambda>d. dependencyStr funcInfoMap (ReferencedOid d))
                (filter (\<lambda>d. OidDependency.Oid d = toid) (dependencyResults4 fns schemaFilter cat k)))
         = {dependencyStr funcInfoMap (pg_proc.oid p) |p n t.
              p \<in> set (pg_proc_rows cat) \<and> n \<in> set (pg_namespace_rows cat) \<and>
              t \<in> set (pg_type_rows cat) \<and> pg_type.oid t = toid \<and> typtype t = ''b'' \<and>
              type_uses fns cat toid p \<and>
              (\<exists>c\<in>set (pg_namespace_rows cat). nspname c = ''pg_catalog'') \<and>
              \<not> builtin_function cat p \<and>
              pg_namespace.oid n = typnamespace t \<and> schemaFilter n}"
    (is "?L = ?R")
proof (rule set_eqI)
  fix m
  have "m \<in> ?L \<longleftrightarrow> (\<exists>d p t n. (d, p, t, n) \<in> set (dependencyRows4 fns schemaFilter cat k) \<and>
                          pg_type.oid t = toid \<and> m = dependencyStr funcInfoMap (pg_proc.oid p))"
    by (auto simp: dependencyResults4_def oidDependencyRow_def image_iff) force
  also have "\<dots> \<longleftrightarrow> m \<in> ?R"
    unfolding set_dependencyRows4 notInNamespace_iff [OF assms] type_uses_def
    by (simp only: mem_Collect_eq prod.case) (rule iffI; clarify; fast)
  finally show "m \<in> ?L \<longleftrightarrow> m \<in> ?R" .
qed

section \<open>What the printers record\<close>

text \<open>
  C9. \<^verbatim>\<open>PrintSessionGUCs\<close> keeps the entries already recorded and adds, when the source
  version is before 5, two entries: one of kind \<^verbatim>\<open>SESSION GUCS\<close> whose range holds the
  universal settings, followed by one of kind \<^verbatim>\<open>GPDB4 SESSION GUCS\<close> whose range holds
  the line that sets \<^verbatim>\<open>gp_strict_xml_parse\<close> and nothing else. When the version is not
  before 5 it adds the \<^verbatim>\<open>SESSION GUCS\<close> entry only.
\<close>

theorem PrintSessionGUCs_entries:
  assumes "wf_file (fst st)"
  shows "snd (PrintSessionGUCs ext st gucs) = snd st @ new_entries st (PrintSessionGUCs ext st gucs) \<and>
         (VersionBefore5 ext \<longrightarrow>
            map (\<lambda>e. (ObjectType e, range_text (fst (PrintSessionGUCs ext st gucs)) e))
                (new_entries st (PrintSessionGUCs ext st gucs))
            = [(''SESSION GUCS'', universalSessionGUCsText gucs),
               (''GPDB4 SESSION GUCS'', ''SET gp_strict_xml_parse = off;\<newline>'')]) \<and>
         (\<not> VersionBefore5 ext \<longrightarrow>
            map (\<lambda>e. (ObjectType e, range_text (fst (PrintSessionGUCs ext st gucs)) e))
                (new_entries st (PrintSessionGUCs ext st gucs))
            = [(''SESSION GUCS'', universalSessionGUCsText gucs)])"
proof -
  have "snd (PrintSessionGUCs ext st gucs) = snd st @ new_entries st (PrintSessionGUCs ext st gucs)"
    by (simp add: PrintSessionGUCs_emit new_entries_emit snd_emit)
  moreover have "map (\<lambda>e. (ObjectType e, range_text (fst (PrintSessionGUCs ext st gucs)) e))
                (new_entries st (PrintSessionGUCs ext st gucs))
            = map (\<lambda>c. (chunk_kind c, chunk_text c)) (sessionGUCsChunks ext gucs)"
    unfolding PrintSessionGUCs_emit by (rule kind_texts_emit [OF assms])
  ultimately show ?thesis
    by (simp add: sessionGUCsChunks_def gpdb4SessionGUCsText_def)
qed

theorem PrintSessionGUCs_entries_witness:
  "wf_file (fst empty_out) \<and> VersionBefore5 ext_v4 \<and> \<not> VersionBefore5 ext_v5 \<and>
   map (\<lambda>e. (ObjectType e, StartByte e, EndByte e)) (snd (PrintSessionGUCs ext_v4 empty_out gucs_utf8))
     = [(''SESSION GUCS'', 0, 194), (''GPDB4 SESSION GUCS'', 194, 225)] \<and>
   map (\<lambda>e. (ObjectType e, range_text (fst (PrintSessionGUCs ext_v4 empty_out gucs_utf8)) e))
       (new_entries empty_out (PrintSessionGUCs ext_v4 empty_out gucs_utf8))
     = [(''SESSION GUCS'', universalSessionGUCsText gucs_utf8),
        (''GPDB4 SESSION GUCS'', ''SET gp_strict_xml_parse = off;\<newline>'')] \<and>
   map (\<lambda>e. (ObjectType e, range_text (fst (PrintSessionGUCs ext_v5 empty_out gucs_utf8)) e))
       (new_entries empty_out (PrintSessionGUCs ext_v5 empty_out gucs_utf8))
     = [(''SESSION GUCS'', universalSessionGUCsText gucs_utf8)]"
proof -
  have wf: "wf_file (fst empty_out)" by (simp add: wf_file_def empty_out_def)
  have v: "VersionBefore5 ext_v4" "\<not> VersionBefore5 ext_v5" by (simp_all add: ext_v4_def ext_v5_def)
  have r: "map (\<lambda>e. (ObjectType e, StartByte e, EndByte e)) (snd (PrintSessionGUCs ext_v4 empty_out gucs_utf8))
     = [(''SESSION GUCS'', 0, 194), (''GPDB4 SESSION GUCS'', 194, 225)]"
    by code_simp
  from PrintSessionGUCs_entries [OF wf, of ext_v4 gucs_utf8]
       PrintSessionGUCs_entries [OF wf, of ext_v5 gucs_utf8] wf v r
  show ?thesis by simp
qed
text \<open>
  C10. \<^verbatim>\<open>PrintCreateResourceQueueStatements\<close> returns exactly when \<^verbatim>\<open>strconv.ParseFloat\<close>
  accepts \<^verbatim>\<open>MaxCost\<close> and \<^verbatim>\<open>MinCost\<close> of every queue (otherwise \<^verbatim>\<open>CheckError\<close> panics).
  When it returns it has recorded one entry for each queue of the list, in order, under the
  queue's name and the kind \<^verbatim>\<open>RESOURCE QUEUE\<close>; after the two line feeds that separate
  statements, the text in the entry's range begins with \<^verbatim>\<open>ALTER RESOURCE QUEUE\<close> when the
  name is exactly \<^verbatim>\<open>pg_default\<close> and with \<^verbatim>\<open>CREATE RESOURCE QUEUE\<close> for every other name.
\<close>

theorem resource_queue_statements:
  assumes "wf_file (fst st)"
  shows "((\<exists>st'. PrintCreateResourceQueueStatements ext st qs md = Inr st') \<longleftrightarrow>
          (\<forall>q\<in>set qs. ParseFloat ext (MaxCost q) \<noteq> None \<and> ParseFloat ext (MinCost q) \<noteq> None)) \<and>
         (\<forall>st'. PrintCreateResourceQueueStatements ext st qs md = Inr st' \<longrightarrow>
            snd st' = snd st @ new_entries st st' \<and>
            list_all2
              (\<lambda>q e. MetadataEntry.Name e = ResourceQueue.Name q \<and> ObjectType e = ''RESOURCE QUEUE'' \<and>
                 prefix (''\<newline>\<newline>'' @
                         (if ResourceQueue.Name q = ''pg_default'' then ''ALTER'' else ''CREATE'') @
                         '' RESOURCE QUEUE '')
                        (range_text (fst st') e))
              qs (new_entries st st'))"
proof (intro conjI allI impI)
  show "(\<exists>st'. PrintCreateResourceQueueStatements ext st qs md = Inr st') \<longleftrightarrow>
        (\<forall>q\<in>set qs. ParseFloat ext (MaxCost q) \<noteq> None \<and> ParseFloat ext (MinCost q) \<noteq> None)"
    unfolding resQueueChunks_Inr_iff [of ext md qs, symmetric] PrintCreateResourceQueueStatements_emit
    by (cases "resQueueChunks ext md qs") simp_all
next
  fix st'
  assume r: "PrintCreateResourceQueueStatements ext st qs md = Inr st'"
  then obtain cs where cs: "resQueueChunks ext md qs = Inr cs" and st': "st' = emit st cs"
    unfolding PrintCreateResourceQueueStatements_emit
    by (cases "resQueueChunks ext md qs") auto
  show "snd st' = snd st @ new_entries st st'"
    by (simp add: st' snd_emit new_entries_emit)
  have "list_all2
          (\<lambda>q e. MetadataEntry.Name e = ResourceQueue.Name q \<and> ObjectType e = ''RESOURCE QUEUE'' \<and>
             prefix (''\<newline>\<newline>'' @
                     (if ResourceQueue.Name q = ''pg_default'' then ''ALTER'' else ''CREATE'') @
                     '' RESOURCE QUEUE '')
                    (range_text (fst (emit st cs)) e))
          qs (new_entries st (emit st cs))"
  proof (rule list_all2_trans [OF _ resQueueChunks_shape [OF cs] emit_chunks [OF assms, of cs]])
    fix q c e
    assume 1: "chunk_name c = ResourceQueue.Name q \<and> chunk_kind c = ''RESOURCE QUEUE'' \<and>
               (\<exists>a. resQueueAttributes ext q = Inr a \<and>
                     chunk_text c = resQueueText q a @ resQueueAnnotation ext md q)"
      and 2: "MetadataEntry.Schema e = '''' \<and> MetadataEntry.Name e = chunk_name c \<and>
              ObjectType e = chunk_kind c \<and> EndByte e = StartByte e + length (chunk_text c) \<and>
              range_text (fst (emit st cs)) e = chunk_text c"
    from 1 obtain a where a: "chunk_text c = resQueueText q a @ resQueueAnnotation ext md q" by blast
    have "prefix (''\<newline>\<newline>'' @
                     (if ResourceQueue.Name q = ''pg_default'' then ''ALTER'' else ''CREATE'') @
                     '' RESOURCE QUEUE '') (chunk_text c)"
      unfolding a resQueueText_def resQueueAction_def Let_def by (simp add: prefix_def)
    with 1 2 show "MetadataEntry.Name e = ResourceQueue.Name q \<and> ObjectType e = ''RESOURCE QUEUE'' \<and>
             prefix (''\<newline>\<newline>'' @
                     (if ResourceQueue.Name q = ''pg_default'' then ''ALTER'' else ''CREATE'') @
                     '' RESOURCE QUEUE '')
                    (range_text (fst (emit st cs)) e)"
      by simp
  qed
  then show "list_all2
          (\<lambda>q e. MetadataEntry.Name e = ResourceQueue.Name q \<and> ObjectType e = ''RESOURCE QUEUE'' \<and>
             prefix (''\<newline>\<newline>'' @
                     (if ResourceQueue.Name q = ''pg_default'' then ''ALTER'' else ''CREATE'') @
                     '' RESOURCE QUEUE '')
                    (range_text (fst st') e))
          qs (new_entries st st')"
    by (simp add: st')
qed

theorem resource_queue_statements_witness:
  "wf_file (fst empty_out) \<and>
   ParseFloat ext_v5 (MaxCost queue_default) \<noteq> None \<and>
   ParseFloat ext_v5 (MinCost queue_default) \<noteq> None \<and>
   ParseFloat ext_v5 (MaxCost queue_some) \<noteq> None \<and>
   ParseFloat ext_v5 (MinCost queue_some) \<noteq> None \<and>
   (\<exists>st'. PrintCreateResourceQueueStatements ext_v5 empty_out [queue_default, queue_some] no_metadata = Inr st' \<and>
      map entry_label (snd st') = [(''pg_default'', ''RESOURCE QUEUE''), (''someQueue'', ''RESOURCE QUEUE'')] \<and>
      prefix ''\<newline>\<newline>ALTER RESOURCE QUEUE '' (range_text (fst st') (snd st' ! 0)) \<and>
      prefix ''\<newline>\<newline>CREATE RESOURCE QUEUE '' (range_text (fst st') (snd st' ! 1)))"
proof -
  have wf: "wf_file (fst empty_out)" by (simp add: wf_file_def empty_out_def)
  have ok: "\<forall>q\<in>set [queue_default, queue_some].
       ParseFloat ext_v5 (MaxCost q) \<noteq> None \<and> ParseFloat ext_v5 (MinCost q) \<noteq> None"
    by (simp add: ext_v5_def parse_cost_def queue_default_def queue_some_def)
  from resource_queue_statements [OF wf, of ext_v5 "[queue_default, queue_some]" no_metadata] ok
  obtain st' where st': "PrintCreateResourceQueueStatements ext_v5 empty_out [queue_default, queue_some] no_metadata = Inr st'"
    and l: "list_all2
              (\<lambda>q e. MetadataEntry.Name e = ResourceQueue.Name q \<and> ObjectType e = ''RESOURCE QUEUE'' \<and>
                 prefix (''\<newline>\<newline>'' @
                         (if ResourceQueue.Name q = ''pg_default'' then ''ALTER'' else ''CREATE'') @
                         '' RESOURCE QUEUE '')
                        (range_text (fst st') e))
              [queue_default, queue_some] (new_entries empty_out st')"
    by blast
  have ne: "new_entries empty_out st' = snd st'" by (simp add: new_entries_def empty_out_def)
  from l obtain e1 e2 where es: "snd st' = [e1, e2]"
    and e1: "MetadataEntry.Name e1 = ''pg_default''" "ObjectType e1 = ''RESOURCE QUEUE''"
            "prefix ''\<newline>\<newline>ALTER RESOURCE QUEUE '' (range_text (fst st') e1)"
    and e2: "MetadataEntry.Name e2 = ''someQueue''" "ObjectType e2 = ''RESOURCE QUEUE''"
            "prefix ''\<newline>\<newline>CREATE RESOURCE QUEUE '' (range_text (fst st') e2)"
    unfolding ne by (auto simp: list_all2_Cons1 queue_default_def queue_some_def)
  from ok have ok': "ParseFloat ext_v5 (MaxCost queue_default) \<noteq> None"
    "ParseFloat ext_v5 (MinCost queue_default) \<noteq> None"
    "ParseFloat ext_v5 (MaxCost queue_some) \<noteq> None"
    "ParseFloat ext_v5 (MinCost queue_some) \<noteq> None"
    by simp_all
  from wf ok' st' es e1 e2 show ?thesis
    by (simp add: entry_label_def)
qed
text \<open>
  C2, as the claim states it, fails: \<^verbatim>\<open>PrintRoleMembershipStatements\<close> writes two line
  feeds (\<^verbatim>\<open>globalFile.MustPrintln("\n")\<close>) before it reads the first \<^verbatim>\<open>start\<close>. On a new
  file and one membership the only recorded range is from 2 to 50: the bytes 0 and 1 of
  the stream lie in no recorded range, and the section is not the concatenation of its
  ranges.
\<close>

theorem role_membership_gap_counterexample:
  "section_covered empty_out \<and>
   map entry_range (snd (PrintRoleMembershipStatements empty_out [member_test])) = [(2, 50)] \<and>
   length (Written (fst (PrintRoleMembershipStatements empty_out [member_test]))) = 50 \<and>
   \<not> section_covered (PrintRoleMembershipStatements empty_out [member_test])"
  by code_simp

text \<open>
  C2, amended. On a consistent file every printer only appends to the stream and to the
  table of contents. For every entry it records, the end offset minus the start offset is
  the byte length of the text written for that entry's object, and that text is what lies
  in the range: a statement with its annotation, and for a database the statement and the
  annotation in two entries, for \<^verbatim>\<open>default_group\<close> and \<^verbatim>\<open>admin_group\<close> each of the five
  statements with the annotation. Consecutive entries are adjacent ranges. For every
  printer but \<^verbatim>\<open>PrintRoleMembershipStatements\<close> the first new range starts at the old end
  of the stream, the last ends at the new end, and the texts of the ranges, concatenated,
  are exactly the bytes the printer wrote; so these printers keep a section equal to the
  concatenation of its recorded ranges from offset 0 to the last end offset.
  \<^verbatim>\<open>PrintRoleMembershipStatements\<close> first writes two line feeds that belong to no range;
  its ranges are adjacent, hold the texts of the memberships, and cover all bytes it
  writes after the two.
\<close>

theorem printers_extend_tiling:
  assumes "wf_file (fst st)"
  shows "extends_tiling 0 st (PrintSessionGUCs ext st gucs) \<and>
         recorded_texts st (PrintSessionGUCs ext st gucs)
           = sized (universalSessionGUCsText gucs) #
             (if VersionBefore5 ext then [sized gpdb4SessionGUCsText] else []) \<and>
         extends_tiling 0 st (PrintCreateDatabaseStatement ext st db md) \<and>
         recorded_texts st (PrintCreateDatabaseStatement ext st db md)
           = sized (databaseText db) #
             (if databaseAnnotation ext md db = '''' then [] else [sized (databaseAnnotation ext md db)]) \<and>
         extends_tiling 0 st (PrintDatabaseGUCs st dbgucs dbname) \<and>
         recorded_texts st (PrintDatabaseGUCs st dbgucs dbname)
           = map (\<lambda>guc. sized (databaseGUCText dbname guc)) dbgucs \<and>
         (\<forall>st'. PrintCreateResourceQueueStatements ext st qs md = Inr st' \<longrightarrow>
            extends_tiling 0 st st' \<and>
            list_all2 (\<lambda>q r. \<exists>attributes. resQueueAttributes ext q = Inr attributes \<and>
                         r = sized (resQueueText q attributes @ resQueueAnnotation ext md q))
              qs (recorded_texts st st')) \<and>
         extends_tiling 0 st (PrintCreateResourceGroupStatements ext st gs md) \<and>
         recorded_texts st (PrintCreateResourceGroupStatements ext st gs md)
           = concat (map (\<lambda>g. map (\<lambda>t. sized (t @ resGroupAnnotation ext md g)) (resGroupTexts g)) gs) \<and>
         extends_tiling 0 st (PrintCreateRoleStatements ext st roles md) \<and>
         recorded_texts st (PrintCreateRoleStatements ext st roles md)
           = map (\<lambda>role. sized (roleText ext role @ roleAnnotation ext md role)) roles \<and>
         extends_tiling 0 st (PrintCreateTablespaceStatements ext st tss md) \<and>
         recorded_texts st (PrintCreateTablespaceStatements ext st tss md)
           = map (\<lambda>t. sized (tablespaceText t @ tablespaceAnnotation ext md t)) tss \<and>
         extends_tiling 2 st (PrintRoleMembershipStatements st ms) \<and>
         take 2 (new_bytes st (PrintRoleMembershipStatements st ms)) = ''\<newline>\<newline>'' \<and>
         recorded_texts st (PrintRoleMembershipStatements st ms)
           = map (\<lambda>m. sized (roleMemberText m)) ms \<and>
         (\<forall>st'. section_covered st \<and> extends_tiling 0 st st' \<longrightarrow> section_covered st')"
proof -
  note e = extends_tiling_emit [OF assms]
  note t = recorded_texts_emit [OF assms]
  have s: "extends_tiling 0 st (PrintSessionGUCs ext st gucs)"
    unfolding PrintSessionGUCs_emit by (rule e)
  have s': "recorded_texts st (PrintSessionGUCs ext st gucs)
           = sized (universalSessionGUCsText gucs) #
             (if VersionBefore5 ext then [sized gpdb4SessionGUCsText] else [])"
    unfolding PrintSessionGUCs_emit t by (simp add: sessionGUCsChunks_def)
  have d: "extends_tiling 0 st (PrintCreateDatabaseStatement ext st db md)"
    unfolding PrintCreateDatabaseStatement_emit by (rule e)
  have d': "recorded_texts st (PrintCreateDatabaseStatement ext st db md)
           = sized (databaseText db) #
             (if databaseAnnotation ext md db = '''' then [] else [sized (databaseAnnotation ext md db)])"
    unfolding PrintCreateDatabaseStatement_emit t by (simp add: databaseChunks_def)
  have u: "extends_tiling 0 st (PrintDatabaseGUCs st dbgucs dbname)"
    unfolding PrintDatabaseGUCs_emit by (rule e)
  have u': "recorded_texts st (PrintDatabaseGUCs st dbgucs dbname)
           = map (\<lambda>guc. sized (databaseGUCText dbname guc)) dbgucs"
    unfolding PrintDatabaseGUCs_emit t by (simp add: databaseGUCChunk_def comp_def)
  have q: "extends_tiling 0 st st' \<and>
            list_all2 (\<lambda>q r. \<exists>attributes. resQueueAttributes ext q = Inr attributes \<and>
                         r = sized (resQueueText q attributes @ resQueueAnnotation ext md q))
              qs (recorded_texts st st')"
    if "PrintCreateResourceQueueStatements ext st qs md = Inr st'" for st'
  proof -
    from that obtain cs where cs: "resQueueChunks ext md qs = Inr cs" and st': "st' = emit st cs"
      unfolding PrintCreateResourceQueueStatements_emit
      by (cases "resQueueChunks ext md qs") auto
    have "list_all2 (\<lambda>q r. \<exists>attributes. resQueueAttributes ext q = Inr attributes \<and>
                         r = sized (resQueueText q attributes @ resQueueAnnotation ext md q))
              qs (map (\<lambda>c. sized (chunk_text c)) cs)"
      unfolding list_all2_map2
      by (rule list_all2_mono [OF resQueueChunks_shape [OF cs]]) auto
    then show ?thesis unfolding st' t using e by simp
  qed
  have g: "extends_tiling 0 st (PrintCreateResourceGroupStatements ext st gs md)"
    unfolding PrintCreateResourceGroupStatements_emit by (rule e)
  have g': "recorded_texts st (PrintCreateResourceGroupStatements ext st gs md)
           = concat (map (\<lambda>g. map (\<lambda>t. sized (t @ resGroupAnnotation ext md g)) (resGroupTexts g)) gs)"
    unfolding PrintCreateResourceGroupStatements_emit t
    by (simp add: map_concat resGroupChunks_def comp_def)
  have r: "extends_tiling 0 st (PrintCreateRoleStatements ext st roles md)"
    unfolding PrintCreateRoleStatements_emit by (rule e)
  have r': "recorded_texts st (PrintCreateRoleStatements ext st roles md)
           = map (\<lambda>role. sized (roleText ext role @ roleAnnotation ext md role)) roles"
    unfolding PrintCreateRoleStatements_emit t by (simp add: roleChunk_def comp_def)
  have b: "extends_tiling 0 st (PrintCreateTablespaceStatements ext st tss md)"
    unfolding PrintCreateTablespaceStatements_emit by (rule e)
  have b': "recorded_texts st (PrintCreateTablespaceStatements ext st tss md)
           = map (\<lambda>t. sized (tablespaceText t @ tablespaceAnnotation ext md t)) tss"
    unfolding PrintCreateTablespaceStatements_emit t by (simp add: tablespaceChunk_def comp_def)
  have m: "extends_tiling 2 st (PrintRoleMembershipStatements st ms)"
    using extends_tiling_after_gap [OF assms, of "''\<newline>\<newline>''" "map roleMemberChunk ms"]
    by (simp add: PrintRoleMembershipStatements_emit numeral_2_eq_2)
  have m': "take 2 (new_bytes st (PrintRoleMembershipStatements st ms)) = ''\<newline>\<newline>''"
    by (simp add: PrintRoleMembershipStatements_emit new_bytes_def Written_emit Written_MustPrintf)
  have m'': "recorded_texts st (PrintRoleMembershipStatements st ms)
           = map (\<lambda>m. sized (roleMemberText m)) ms"
    unfolding PrintRoleMembershipStatements_emit recorded_texts_after_gap [OF assms]
    by (simp add: roleMemberChunk_def comp_def)
  have c: "\<forall>st'. section_covered st \<and> extends_tiling 0 st st' \<longrightarrow> section_covered st'"
    by (blast intro: section_covered_extends)
  from q have q': "\<forall>st'. PrintCreateResourceQueueStatements ext st qs md = Inr st' \<longrightarrow>
            extends_tiling 0 st st' \<and>
            list_all2 (\<lambda>q r. \<exists>attributes. resQueueAttributes ext q = Inr attributes \<and>
                         r = sized (resQueueText q attributes @ resQueueAnnotation ext md q))
              qs (recorded_texts st st')"
    by (intro allI impI)
  show ?thesis
    by (intro conjI s s' d d' u u' q' g g' r r' b b' m m' m'' c)
qed

theorem printers_extend_tiling_witness:
  "wf_file (fst empty_out) \<and> section_covered empty_out \<and>
   PrintCreateResourceQueueStatements ext_v5 empty_out [queue_default] no_metadata
     = Inr (projr (PrintCreateResourceQueueStatements ext_v5 empty_out [queue_default] no_metadata)) \<and>
   extends_tiling 0 empty_out
     (projr (PrintCreateResourceQueueStatements ext_v5 empty_out [queue_default] no_metadata)) \<and>
   section_covered (PrintCreateTablespaceStatements ext_v5 empty_out [tablespace_test] no_metadata) \<and>
   recorded_texts empty_out (PrintCreateTablespaceStatements ext_v5 empty_out [tablespace_test] no_metadata)
     = [sized (tablespaceText tablespace_test @ tablespaceAnnotation ext_v5 no_metadata tablespace_test)] \<and>
   extends_tiling 2 empty_out (PrintRoleMembershipStatements empty_out [member_test]) \<and>
   recorded_texts empty_out (PrintRoleMembershipStatements empty_out [member_test])
     = [sized (roleMemberText member_test)] \<and>
   sized (roleMemberText member_test) = (48, ''\<newline>GRANT usergroup TO testuser GRANTED BY gpadmin;'')"
proof -
  have wf: "wf_file (fst empty_out)" by (simp add: wf_file_def empty_out_def)
  have sc: "section_covered empty_out" by (simp add: section_covered_def wf_file_def empty_out_def)
  have r: "PrintCreateResourceQueueStatements ext_v5 empty_out [queue_default] no_metadata
     = Inr (projr (PrintCreateResourceQueueStatements ext_v5 empty_out [queue_default] no_metadata))"
    by code_simp
  have z: "sized (roleMemberText member_test) = (48, ''\<newline>GRANT usergroup TO testuser GRANTED BY gpadmin;'')"
    by code_simp
  note T = printers_extend_tiling [OF wf, where ext = ext_v5 and md = no_metadata
      and qs = "[queue_default]" and tss = "[tablespace_test]" and ms = "[member_test]"]
  from T r have q: "extends_tiling 0 empty_out
     (projr (PrintCreateResourceQueueStatements ext_v5 empty_out [queue_default] no_metadata))"
    by blast
  from T have t: "extends_tiling 0 empty_out (PrintCreateTablespaceStatements ext_v5 empty_out [tablespace_test] no_metadata)"
    by blast
  from T sc t have t': "section_covered (PrintCreateTablespaceStatements ext_v5 empty_out [tablespace_test] no_metadata)"
    by blast
  from T have t'': "recorded_texts empty_out (PrintCreateTablespaceStatements ext_v5 empty_out [tablespace_test] no_metadata)
     = [sized (tablespaceText tablespace_test @ tablespaceAnnotation ext_v5 no_metadata tablespace_test)]"
    by simp
  from T have m: "extends_tiling 2 empty_out (PrintRoleMembershipStatements empty_out [member_test])"
    by blast
  from T have m': "recorded_texts empty_out (PrintRoleMembershipStatements empty_out [member_test])
     = [sized (roleMemberText member_test)]"
    by simp
  show ?thesis
    by (intro conjI wf sc r q t' t'' m m' z)
qed



text \<open>
  C4, as the claim states it, fails: for a database whose annotation text is not empty
  \<^verbatim>\<open>PrintCreateDatabaseStatement\<close> records two entries, not one. The \<^verbatim>\<open>DATABASE\<close> entry
  covers the primary statement only (bytes 0 to 25) and the annotation has an entry of its
  own, of kind \<^verbatim>\<open>DATABASE METADATA\<close> (bytes 25 to 66).
\<close>

theorem database_annotation_counterexample:
  "databaseAnnotation ext_v5 no_metadata db_testdb \<noteq> '''' \<and>
   length (databaseText db_testdb) = 25 \<and>
   map ObjectType (snd (PrintCreateDatabaseStatement ext_v5 empty_out db_testdb no_metadata))
     = [''DATABASE'', ''DATABASE METADATA''] \<and>
   map entry_range (snd (PrintCreateDatabaseStatement ext_v5 empty_out db_testdb no_metadata))
     = [(0, 25), (25, 66)]"
  by code_simp

text \<open>
  C4, amended. For resource queues, resource groups, roles and tablespaces the
  annotation is folded into the entry of the statement it follows: the text in each
  recorded range is a primary statement followed by the annotation text, empty or not
  (one such range for a queue, a role, a tablespace and a group that is created; one for
  each of the five \<^verbatim>\<open>ALTER\<close> statements of \<^verbatim>\<open>default_group\<close> and \<^verbatim>\<open>admin_group\<close>). For a
  database the annotation is not folded: the \<^verbatim>\<open>DATABASE\<close> entry covers the primary
  statement only, and an annotation that is not empty has an adjacent entry of its own, of
  kind \<^verbatim>\<open>DATABASE METADATA\<close>; when the annotation is empty only the primary range is
  recorded.
\<close>

theorem annotation_ranges:
  assumes "wf_file (fst st)"
  shows "(\<forall>st'. PrintCreateResourceQueueStatements ext st qs md = Inr st' \<longrightarrow>
            list_all2 (\<lambda>q e. \<exists>attributes. resQueueAttributes ext q = Inr attributes \<and>
                         range_text (fst st') e = resQueueText q attributes @ resQueueAnnotation ext md q)
              qs (new_entries st st')) \<and>
         map (range_text (fst (PrintCreateResourceGroupStatements ext st gs md)))
             (new_entries st (PrintCreateResourceGroupStatements ext st gs md))
           = concat (map (\<lambda>g. map (\<lambda>t. t @ resGroupAnnotation ext md g) (resGroupTexts g)) gs) \<and>
         map (range_text (fst (PrintCreateRoleStatements ext st roles md)))
             (new_entries st (PrintCreateRoleStatements ext st roles md))
           = map (\<lambda>role. roleText ext role @ roleAnnotation ext md role) roles \<and>
         map (range_text (fst (PrintCreateTablespaceStatements ext st tss md)))
             (new_entries st (PrintCreateTablespaceStatements ext st tss md))
           = map (\<lambda>t. tablespaceText t @ tablespaceAnnotation ext md t) tss \<and>
         map (\<lambda>e. (ObjectType e, range_text (fst (PrintCreateDatabaseStatement ext st db md)) e))
             (new_entries st (PrintCreateDatabaseStatement ext st db md))
           = (''DATABASE'', databaseText db) #
             (if databaseAnnotation ext md db = '''' then []
              else [(''DATABASE METADATA'', databaseAnnotation ext md db)])"
proof -
  have q: "list_all2 (\<lambda>q e. \<exists>attributes. resQueueAttributes ext q = Inr attributes \<and>
                         range_text (fst st') e = resQueueText q attributes @ resQueueAnnotation ext md q)
              qs (new_entries st st')"
    if "PrintCreateResourceQueueStatements ext st qs md = Inr st'" for st'
  proof -
    from that obtain cs where cs: "resQueueChunks ext md qs = Inr cs" and st': "st' = emit st cs"
      unfolding PrintCreateResourceQueueStatements_emit
      by (cases "resQueueChunks ext md qs") auto
    show ?thesis
      unfolding st'
      by (rule list_all2_trans [OF _ resQueueChunks_shape [OF cs] emit_chunks [OF assms, of cs]]) auto
  qed
  have g: "map (range_text (fst (PrintCreateResourceGroupStatements ext st gs md)))
             (new_entries st (PrintCreateResourceGroupStatements ext st gs md))
           = concat (map (\<lambda>g. map (\<lambda>t. t @ resGroupAnnotation ext md g) (resGroupTexts g)) gs)"
    unfolding PrintCreateResourceGroupStatements_emit range_texts_emit [OF assms]
    by (simp add: map_concat resGroupChunks_def comp_def)
  have r: "map (range_text (fst (PrintCreateRoleStatements ext st roles md)))
             (new_entries st (PrintCreateRoleStatements ext st roles md))
           = map (\<lambda>role. roleText ext role @ roleAnnotation ext md role) roles"
    unfolding PrintCreateRoleStatements_emit range_texts_emit [OF assms]
    by (simp add: roleChunk_def)
  have t: "map (range_text (fst (PrintCreateTablespaceStatements ext st tss md)))
             (new_entries st (PrintCreateTablespaceStatements ext st tss md))
           = map (\<lambda>t. tablespaceText t @ tablespaceAnnotation ext md t) tss"
    unfolding PrintCreateTablespaceStatements_emit range_texts_emit [OF assms]
    by (simp add: tablespaceChunk_def)
  have d: "map (\<lambda>e. (ObjectType e, range_text (fst (PrintCreateDatabaseStatement ext st db md)) e))
             (new_entries st (PrintCreateDatabaseStatement ext st db md))
           = (''DATABASE'', databaseText db) #
             (if databaseAnnotation ext md db = '''' then []
              else [(''DATABASE METADATA'', databaseAnnotation ext md db)])"
    unfolding PrintCreateDatabaseStatement_emit kind_texts_emit [OF assms]
    by (simp add: databaseChunks_def)
  from q g r t d show ?thesis by blast
qed

theorem annotation_ranges_witness:
  "wf_file (fst empty_out) \<and>
   PrintCreateResourceQueueStatements ext_v5 empty_out [queue_default] no_metadata
     = Inr (projr (PrintCreateResourceQueueStatements ext_v5 empty_out [queue_default] no_metadata)) \<and>
   list_all2 (\<lambda>q e. \<exists>attributes. resQueueAttributes ext_v5 q = Inr attributes \<and>
                range_text (fst (projr (PrintCreateResourceQueueStatements ext_v5 empty_out [queue_default] no_metadata))) e
                  = resQueueText q attributes @ resQueueAnnotation ext_v5 no_metadata q)
     [queue_default]
     (new_entries empty_out (projr (PrintCreateResourceQueueStatements ext_v5 empty_out [queue_default] no_metadata))) \<and>
   map (range_text (fst (PrintCreateTablespaceStatements ext_v5 empty_out [tablespace_test] no_metadata)))
       (snd (PrintCreateTablespaceStatements ext_v5 empty_out [tablespace_test] no_metadata))
     = [''\<newline>\<newline>CREATE TABLESPACE test_tablespace FILESPACE test_filespace;'' @
        ''\<newline>\<newline>ALTER TABLESPACE test_tablespace OWNER TO gpadmin;'']"
proof -
  have wf: "wf_file (fst empty_out)" by (simp add: wf_file_def empty_out_def)
  have r: "PrintCreateResourceQueueStatements ext_v5 empty_out [queue_default] no_metadata
     = Inr (projr (PrintCreateResourceQueueStatements ext_v5 empty_out [queue_default] no_metadata))"
    by code_simp
  have t: "map (range_text (fst (PrintCreateTablespaceStatements ext_v5 empty_out [tablespace_test] no_metadata)))
       (snd (PrintCreateTablespaceStatements ext_v5 empty_out [tablespace_test] no_metadata))
     = [''\<newline>\<newline>CREATE TABLESPACE test_tablespace FILESPACE test_filespace;'' @
        ''\<newline>\<newline>ALTER TABLESPACE test_tablespace OWNER TO gpadmin;'']"
    by code_simp
  from annotation_ranges [OF wf, of ext_v5 "[queue_default]" no_metadata] wf r t
  show ?thesis by blast
qed

text \<open>
  C5, as the claim states it, fails: for the one resource group \<^verbatim>\<open>default_group\<close>
  \<^verbatim>\<open>PrintCreateResourceGroupStatements\<close> calls \<^verbatim>\<open>AddMetadataEntry\<close> five times, once for
  each \<^verbatim>\<open>ALTER RESOURCE GROUP\<close> statement, under the same name and kind.
\<close>

theorem default_group_entries_counterexample:
  "length [group_default] = 1 \<and>
   map entry_label (snd (PrintCreateResourceGroupStatements ext_v4 empty_out [group_default] no_metadata))
     = [(''default_group'', ''RESOURCE GROUP''), (''default_group'', ''RESOURCE GROUP''),
        (''default_group'', ''RESOURCE GROUP''), (''default_group'', ''RESOURCE GROUP''),
        (''default_group'', ''RESOURCE GROUP'')]"
  by code_simp

text \<open>
  C5, amended. Every printer calls \<^verbatim>\<open>AddMetadataEntry\<close> at least once for every object it
  prints, and the entries follow the order of the objects. It calls it exactly once for a
  database setting, a resource queue, a role, a role membership, a tablespace and a
  resource group other than \<^verbatim>\<open>default_group\<close> and \<^verbatim>\<open>admin_group\<close>; five times, under the
  same name and kind, for \<^verbatim>\<open>default_group\<close> and for \<^verbatim>\<open>admin_group\<close>; once for a database
  whose annotation text is empty and twice (\<^verbatim>\<open>DATABASE\<close>, then \<^verbatim>\<open>DATABASE METADATA\<close>)
  otherwise; once for the session settings, and twice when the version is before 5.
\<close>

theorem entries_per_object:
  "map entry_label (snd (PrintSessionGUCs ext st gucs))
     = map entry_label (snd st) @
       ('''', ''SESSION GUCS'') # (if VersionBefore5 ext then [('''', ''GPDB4 SESSION GUCS'')] else []) \<and>
   map entry_label (snd (PrintCreateDatabaseStatement ext st db md))
     = map entry_label (snd st) @
       (Database.Name db, ''DATABASE'') #
       (if ObjectMetadataText ext (md (Database.Oid db)) (Database.Name db) ''DATABASE'' = '''' then []
        else [(Database.Name db, ''DATABASE METADATA'')]) \<and>
   map entry_label (snd (PrintDatabaseGUCs st dbgucs dbname))
     = map entry_label (snd st) @ map (\<lambda>guc. (dbname, ''DATABASE GUC'')) dbgucs \<and>
   (\<forall>st'. PrintCreateResourceQueueStatements ext st qs md = Inr st' \<longrightarrow>
      map entry_label (snd st')
        = map entry_label (snd st) @ map (\<lambda>q. (ResourceQueue.Name q, ''RESOURCE QUEUE'')) qs) \<and>
   map entry_label (snd (PrintCreateResourceGroupStatements ext st gs md))
     = map entry_label (snd st) @
       concat (map (\<lambda>g. replicate
                          (if ResourceGroup.Name g = ''default_group'' \<or> ResourceGroup.Name g = ''admin_group''
                           then 5 else 1)
                          (ResourceGroup.Name g, ''RESOURCE GROUP'')) gs) \<and>
   map entry_label (snd (PrintCreateRoleStatements ext st roles md))
     = map entry_label (snd st) @ map (\<lambda>role. (Role.Name role, ''ROLE'')) roles \<and>
   map entry_label (snd (PrintRoleMembershipStatements st ms))
     = map entry_label (snd st) @ map (\<lambda>m. (Member m, ''ROLE GRANT'')) ms \<and>
   map entry_label (snd (PrintCreateTablespaceStatements ext st tss md))
     = map entry_label (snd st) @ map (\<lambda>t. (Tablespace.Tablespace t, ''TABLESPACE'')) tss"
proof -
  have q: "map entry_label (snd st')
        = map entry_label (snd st) @ map (\<lambda>q. (ResourceQueue.Name q, ''RESOURCE QUEUE'')) qs"
    if "PrintCreateResourceQueueStatements ext st qs md = Inr st'" for st'
  proof -
    from that obtain cs where cs: "resQueueChunks ext md qs = Inr cs" and st': "st' = emit st cs"
      unfolding PrintCreateResourceQueueStatements_emit
      by (cases "resQueueChunks ext md qs") auto
    from resQueueChunks_shape [OF cs]
    have "list_all2 (\<lambda>q c. (chunk_name c, chunk_kind c) = (ResourceQueue.Name q, ''RESOURCE QUEUE'')) qs cs"
      by (rule list_all2_mono) simp
    then have "map (\<lambda>c. (chunk_name c, chunk_kind c)) cs = map (\<lambda>q. (ResourceQueue.Name q, ''RESOURCE QUEUE'')) qs"
      by (simp add: list_all2_conv_all_nth list_eq_iff_nth_eq)
    then show ?thesis by (simp add: st' labels_emit)
  qed
  have g: "map (\<lambda>c. (chunk_name c, chunk_kind c)) (resGroupChunks ext md g)
           = replicate (if ResourceGroup.Name g = ''default_group'' \<or> ResourceGroup.Name g = ''admin_group''
                        then 5 else 1) (ResourceGroup.Name g, ''RESOURCE GROUP'')" for g
    by (simp add: resGroupChunks_def resGroupTexts_def builtinResGroup_def resGroupList_def
        numeral_eq_Suc)
  have gs: "map entry_label (snd (PrintCreateResourceGroupStatements ext st gs md))
     = map entry_label (snd st) @
       concat (map (\<lambda>g. replicate
                          (if ResourceGroup.Name g = ''default_group'' \<or> ResourceGroup.Name g = ''admin_group''
                           then 5 else 1)
                          (ResourceGroup.Name g, ''RESOURCE GROUP'')) gs)"
    unfolding PrintCreateResourceGroupStatements_emit labels_emit map_concat
    by (simp add: comp_def g)
  have m: "map entry_label (snd (PrintRoleMembershipStatements st ms))
     = map entry_label (snd st) @ map (\<lambda>m. (Member m, ''ROLE GRANT'')) ms"
    unfolding PrintRoleMembershipStatements_emit labels_emit
    by (simp add: roleMemberChunk_def comp_def)
  have s: "map entry_label (snd (PrintSessionGUCs ext st gucs))
     = map entry_label (snd st) @
       ('''', ''SESSION GUCS'') # (if VersionBefore5 ext then [('''', ''GPDB4 SESSION GUCS'')] else [])"
    unfolding PrintSessionGUCs_emit labels_emit by (simp add: sessionGUCsChunks_def)
  have d: "map entry_label (snd (PrintCreateDatabaseStatement ext st db md))
     = map entry_label (snd st) @
       (Database.Name db, ''DATABASE'') #
       (if ObjectMetadataText ext (md (Database.Oid db)) (Database.Name db) ''DATABASE'' = '''' then []
        else [(Database.Name db, ''DATABASE METADATA'')])"
    unfolding PrintCreateDatabaseStatement_emit labels_emit
    by (simp add: databaseChunks_def databaseAnnotation_def)
  have dg: "map entry_label (snd (PrintDatabaseGUCs st dbgucs dbname))
     = map entry_label (snd st) @ map (\<lambda>guc. (dbname, ''DATABASE GUC'')) dbgucs"
    unfolding PrintDatabaseGUCs_emit labels_emit by (simp add: databaseGUCChunk_def comp_def)
  have r: "map entry_label (snd (PrintCreateRoleStatements ext st roles md))
     = map entry_label (snd st) @ map (\<lambda>role. (Role.Name role, ''ROLE'')) roles"
    unfolding PrintCreateRoleStatements_emit labels_emit by (simp add: roleChunk_def comp_def)
  have t: "map entry_label (snd (PrintCreateTablespaceStatements ext st tss md))
     = map entry_label (snd st) @ map (\<lambda>t. (Tablespace.Tablespace t, ''TABLESPACE'')) tss"
    unfolding PrintCreateTablespaceStatements_emit labels_emit by (simp add: tablespaceChunk_def comp_def)
  from s d dg q gs r m t show ?thesis by blast
qed

theorem entries_per_object_witness:
  "PrintCreateResourceQueueStatements ext_v4 empty_out [queue_some, queue_default] no_metadata
     = Inr (projr (PrintCreateResourceQueueStatements ext_v4 empty_out [queue_some, queue_default] no_metadata)) \<and>
   map entry_label (snd (projr (PrintCreateResourceQueueStatements ext_v4 empty_out [queue_some, queue_default] no_metadata)))
     = [(''someQueue'', ''RESOURCE QUEUE''), (''pg_default'', ''RESOURCE QUEUE'')] \<and>
   map entry_label (snd (PrintCreateResourceGroupStatements ext_v4 empty_out [group_some, group_default] no_metadata))
     = (''some_group'', ''RESOURCE GROUP'') # replicate 5 (''default_group'', ''RESOURCE GROUP'')"
proof -
  have r: "PrintCreateResourceQueueStatements ext_v4 empty_out [queue_some, queue_default] no_metadata
     = Inr (projr (PrintCreateResourceQueueStatements ext_v4 empty_out [queue_some, queue_default] no_metadata))"
    by code_simp
  have e0: "snd empty_out = []" by (simp add: empty_out_def)
  note E = entries_per_object [of ext_v4 empty_out _ _ no_metadata _ _ "[queue_some, queue_default]"
      "[group_some, group_default]"]
  from E r have "map entry_label (snd (projr (PrintCreateResourceQueueStatements ext_v4 empty_out [queue_some, queue_default] no_metadata)))
     = map entry_label (snd empty_out) @ map (\<lambda>q. (ResourceQueue.Name q, ''RESOURCE QUEUE'')) [queue_some, queue_default]"
    by blast
  then have q: "map entry_label (snd (projr (PrintCreateResourceQueueStatements ext_v4 empty_out [queue_some, queue_default] no_metadata)))
     = [(''someQueue'', ''RESOURCE QUEUE''), (''pg_default'', ''RESOURCE QUEUE'')]"
    by (simp add: e0 queue_some_def queue_default_def)
  from E have "map entry_label (snd (PrintCreateResourceGroupStatements ext_v4 empty_out [group_some, group_default] no_metadata))
     = map entry_label (snd empty_out) @
       concat (map (\<lambda>g. replicate
                          (if ResourceGroup.Name g = ''default_group'' \<or> ResourceGroup.Name g = ''admin_group''
                           then 5 else 1)
                          (ResourceGroup.Name g, ''RESOURCE GROUP'')) [group_some, group_default])"
    by blast
  then have g: "map entry_label (snd (PrintCreateResourceGroupStatements ext_v4 empty_out [group_some, group_default] no_metadata))
     = (''some_group'', ''RESOURCE GROUP'') # replicate 5 (''default_group'', ''RESOURCE GROUP'')"
    by (simp add: e0 group_some_def group_default_def)
  from r q g show ?thesis by blast
qed

section \<open>What resolution and sequencing guarantee\<close>

text \<open>
  C1. When the resolver builds a graph for an object set (no reference is ambiguous)
  and the graph is acyclic, the sequencer returns an emission sequence; the sequence
  holds the full definition of every object of the set once and no shell; and every
  object comes strictly after each object that one of its \<^verbatim>\<open>DependsUpon\<close> references
  resolves to. The object set TypeA (needs FuncX), FuncX, TypeB (needs TypeA) is sequenced
  as FuncX, TypeA, TypeB.
\<close>

theorem emission_after_dependencies:
  assumes "DependencyResolver DependsUpon objs = Inr g" and "acyclic (set (edges g))"
  shows "(\<exists>out. EmissionSequence objs = Inr out \<and> mset out = mset (map Full objs) \<and>
            (\<forall>pre r post n d. out = pre @ Full r # post \<and> n \<in> set (DependsUpon r) \<and>
                 lookup objs n = [d] \<longrightarrow> Full d \<in> set pre)) \<and>
         EmissionSequence [TypeA, FuncX, TypeB] = Inr [Full FuncX, Full TypeA, Full TypeB]"
proof
  from sequencer_acyclic [OF assms] obtain out where
    out: "TopologicalSequencer g = Inr out" "mset out = mset (map Full objs)"
      "ordered_from (item_deps g) [] out"
    by blast
  have e: "EmissionSequence objs = Inr out"
    using assms(1) out(1) by (simp add: EmissionSequence_def sequence_refs_def)
  have "Full d \<in> set pre"
    if "out = pre @ Full r # post" "n \<in> set (DependsUpon r)" "lookup objs n = [d]" for pre r post n d
  proof -
    from that(1) have "Full r \<in> set out" by simp
    with out(2) have "Full r \<in> set (map Full objs)" by (metis mset_eq_setD)
    then have r: "r \<in> set objs" by auto
    from DependencyResolver_deps [OF assms(1) r] have "resolve objs (DependsUpon r) = Inr (deps_of g r)" .
    from resolve_set [OF this, of d] that(2,3) have "d \<in> set (deps_of g r)" by blast
    then have "Full d \<in> set (item_deps g (Full r))"
      using assms(2) by (simp add: acyclic_not_promoted)
    with ordered_from_split [OF out(3) that(1)] show ?thesis by auto
  qed
  with e out(2)
  show "\<exists>out. EmissionSequence objs = Inr out \<and> mset out = mset (map Full objs) \<and>
            (\<forall>pre r post n d. out = pre @ Full r # post \<and> n \<in> set (DependsUpon r) \<and>
                 lookup objs n = [d] \<longrightarrow> Full d \<in> set pre)"
    by blast
next
  show "EmissionSequence [TypeA, FuncX, TypeB] = Inr [Full FuncX, Full TypeA, Full TypeB]"
    by code_simp
qed

theorem emission_after_dependencies_witness:
  "DependencyResolver DependsUpon [TypeB, FuncX, TypeA]
     = Inr [(TypeB, [TypeA]), (FuncX, []), (TypeA, [FuncX])] \<and>
   acyclic (set (edges [(TypeB, [TypeA]), (FuncX, []), (TypeA, [FuncX])])) \<and>
   EmissionSequence [TypeB, FuncX, TypeA] = Inr [Full FuncX, Full TypeA, Full TypeB] \<and>
   (\<exists>out. EmissionSequence [TypeB, FuncX, TypeA] = Inr out \<and>
      mset out = mset (map Full [TypeB, FuncX, TypeA]) \<and>
      (\<forall>pre r post n d. out = pre @ Full r # post \<and> n \<in> set (DependsUpon r) \<and>
           lookup [TypeB, FuncX, TypeA] n = [d] \<longrightarrow> Full d \<in> set pre))"
proof -
  have g: "DependencyResolver DependsUpon [TypeB, FuncX, TypeA]
     = Inr [(TypeB, [TypeA]), (FuncX, []), (TypeA, [FuncX])]"
    by code_simp
  have a: "acyclic (set (edges [(TypeB, [TypeA]), (FuncX, []), (TypeA, [FuncX])]))"
    unfolding acyclic_set_iff by code_simp
  have e: "EmissionSequence [TypeB, FuncX, TypeA] = Inr [Full FuncX, Full TypeA, Full TypeB]"
    by code_simp
  from emission_after_dependencies [OF g a] g a e show ?thesis by blast
qed

text \<open>
  C8. Resolution and sequencing do not depend on the order of the input: when no two
  different records of the set share (Schema, Name, Oid), as is the case when the oids
  are unique, two orderings of the same object set are sequenced alike (the one gives an
  emission sequence exactly when the other does, and the same one). In the sequence,
  every emission has the least key, in ascending (Schema, Name, Oid), among the later
  emissions that were ready when it was emitted.
\<close>

theorem sequencing_deterministic:
  assumes "mset objs' = mset objs" and "inj_on record_key (set objs)"
  shows "(\<forall>out. EmissionSequence objs' = Inr out \<longleftrightarrow> EmissionSequence objs = Inr out) \<and>
         (\<forall>g out pre i post j. DependencyResolver DependsUpon objs = Inr g \<and>
              EmissionSequence objs = Inr out \<and> out = pre @ i # post \<and> j \<in> set post \<and>
              set (item_deps g j) \<subseteq> set pre \<longrightarrow> item_key i \<le> item_key j)"
proof
  from assms(1) have s: "set objs' = set objs" by (rule mset_eq_setD)
  with assms(2) have inj': "inj_on record_key (set objs')" by simp
  show "\<forall>out. EmissionSequence objs' = Inr out \<longleftrightarrow> EmissionSequence objs = Inr out"
    unfolding EmissionSequence_def
    using EmissionSequence_perm_Inr [OF assms(1) assms(2), of DependsUpon]
      EmissionSequence_perm_Inr [OF assms(1) [symmetric] inj', of DependsUpon]
    by blast
next
  show "\<forall>g out pre i post j. DependencyResolver DependsUpon objs = Inr g \<and>
              EmissionSequence objs = Inr out \<and> out = pre @ i # post \<and> j \<in> set post \<and>
              set (item_deps g j) \<subseteq> set pre \<longrightarrow> item_key i \<le> item_key j"
  proof (intro allI impI, elim conjE)
    fix g out pre i post j
    assume g: "DependencyResolver DependsUpon objs = Inr g" and e: "EmissionSequence objs = Inr out"
      and o: "out = pre @ i # post" and j: "j \<in> set post" "set (item_deps g j) \<subseteq> set pre"
    from g e have "kahn (item_deps g) [] (items g) = Inr out"
      by (simp add: EmissionSequence_def sequence_refs_def TopologicalSequencer_def)
    from kahn_Inr [OF this] have "least_first (item_deps g) [] out" by auto
    from least_first_split [OF this o j(1)] j(2) show "item_key i \<le> item_key j" by simp
  qed
qed

theorem sequencing_deterministic_witness:
  "mset [TypeC, TypeB, TypeA, FuncX] = mset [FuncX, TypeA, TypeB, TypeC] \<and>
   inj_on record_key (set [FuncX, TypeA, TypeB, TypeC]) \<and>
   EmissionSequence [FuncX, TypeA, TypeB, TypeC] = Inr [Full FuncX, Full TypeA, Full TypeB, Full TypeC] \<and>
   EmissionSequence [TypeC, TypeB, TypeA, FuncX] = Inr [Full FuncX, Full TypeA, Full TypeB, Full TypeC] \<and>
   set (item_deps [(FuncX, []), (TypeA, [FuncX]), (TypeB, [TypeA]), (TypeC, [FuncX])] (Full TypeC))
     \<subseteq> set [Full FuncX] \<and>
   item_key (Full TypeA) \<le> item_key (Full TypeC)"
proof -
  have m: "mset [TypeC, TypeB, TypeA, FuncX] = mset [FuncX, TypeA, TypeB, TypeC]" by simp
  have "distinct (map record_key [FuncX, TypeA, TypeB, TypeC])" by code_simp
  then have i: "inj_on record_key (set [FuncX, TypeA, TypeB, TypeC])" by (simp only: distinct_map)
  have e: "EmissionSequence [FuncX, TypeA, TypeB, TypeC] = Inr [Full FuncX, Full TypeA, Full TypeB, Full TypeC]"
    by code_simp
  have g: "DependencyResolver DependsUpon [FuncX, TypeA, TypeB, TypeC]
           = Inr [(FuncX, []), (TypeA, [FuncX]), (TypeB, [TypeA]), (TypeC, [FuncX])]"
    by code_simp
  have d: "set (item_deps [(FuncX, []), (TypeA, [FuncX]), (TypeB, [TypeA]), (TypeC, [FuncX])] (Full TypeC))
     \<subseteq> set [Full FuncX]"
    by code_simp
  note T = sequencing_deterministic [OF m i]
  from T e have e': "EmissionSequence [TypeC, TypeB, TypeA, FuncX]
      = Inr [Full FuncX, Full TypeA, Full TypeB, Full TypeC]"
    by blast
  have o: "[Full FuncX, Full TypeA, Full TypeB, Full TypeC] = [Full FuncX] @ Full TypeA # [Full TypeB, Full TypeC]"
    by simp
  have j: "Full TypeC \<in> set [Full TypeB, Full TypeC]" by simp
  from T g e o j d have k: "item_key (Full TypeA) \<le> item_key (Full TypeC)" by blast
  from m i e e' d k show ?thesis by blast
qed


section \<open>The claim about references that do not resolve\<close>

text \<open>
  C7. A reference \<open>n\<close> that the lookup resolves to no object of the set is dropped: the
  resolution of a reference list that holds \<open>n\<close> is the resolution of the list without it
  (no edge for \<open>n\<close>, and no fault that the other references do not raise), no dependency
  of any node has the name \<open>n\<close>, and the object set is sequenced as it is with every
  occurrence of \<open>n\<close> erased from the reference lists. With FuncX absent, TypeA (which
  refers to it) is sequenced first, with no predecessor.

  \<^verbatim>\<open>ConstructBaseTypeDependencies5\<close> and \<^verbatim>\<open>ConstructBaseTypeDependencies4\<close> return unless
  the catalog has more than one namespace named \<^verbatim>\<open>pg_catalog\<close>. They leave every type
  that is not a base type as it is, and give a base type a \<^verbatim>\<open>DependsUpon\<close> list whose
  entries are exactly the functions that the type uses, that are not built in and whose
  joined namespace passes the schema filter (in a catalog that has the namespace
  \<^verbatim>\<open>pg_catalog\<close>): from version 5 on under the name the query builds, before version 5
  under the name \<^verbatim>\<open>funcInfoMap\<close> has for the oid of the function. So no entry comes from
  a built-in function.
\<close>

theorem unresolved_references_dropped:
  assumes "lookup objs n = []"
  shows "resolve objs (ns @ n # ms) = resolve objs (ns @ ms) \<and>
         resolve objs [n] = Inr [] \<and>
         (\<forall>g r d. DependencyResolver DependsUpon objs = Inr g \<and> d \<in> set (deps_of g r) \<longrightarrow>
            QualifiedName d \<noteq> n) \<and>
         sequence_refs (\<lambda>r. filter (\<lambda>m. m \<noteq> n) (DependsUpon r)) objs = EmissionSequence objs \<and>
         EmissionSequence [TypeA, TypeB] = Inr [Full TypeA, Full TypeB] \<and>
         ((\<exists>ts. ConstructBaseTypeDependencies5 fns schemaFilter cat types = Inr ts) \<longleftrightarrow>
            length (filter (\<lambda>c. nspname c = ''pg_catalog'') (pg_namespace_rows cat)) \<le> 1) \<and>
         (\<forall>ts. ConstructBaseTypeDependencies5 fns schemaFilter cat types = Inr ts \<longrightarrow>
            (\<exists>deps.
               ts = map (\<lambda>t. if Type.Type t = ''b'' then t\<lparr>Type.DependsUpon := deps (Type.Oid t)\<rparr> else t)
                      types \<and>
               (\<forall>toid. set (deps toid) =
                  {referencedObject fns p nsp |p nsp t.
                     p \<in> set (pg_proc_rows cat) \<and> nsp \<in> set (pg_namespace_rows cat) \<and>
                     t \<in> set (pg_type_rows cat) \<and> pg_type.oid t = toid \<and> typtype t = ''b'' \<and>
                     type_uses fns cat toid p \<and>
                     (\<exists>c\<in>set (pg_namespace_rows cat). nspname c = ''pg_catalog'') \<and>
                     \<not> builtin_function cat p \<and>
                     pg_namespace.oid nsp = pronamespace p \<and> schemaFilter nsp}))) \<and>
         ((\<exists>ts. ConstructBaseTypeDependencies4 fns schemaFilter cat types funcInfoMap = Inr ts) \<longleftrightarrow>
            length (filter (\<lambda>c. nspname c = ''pg_catalog'') (pg_namespace_rows cat)) \<le> 1) \<and>
         (\<forall>ts. ConstructBaseTypeDependencies4 fns schemaFilter cat types funcInfoMap = Inr ts \<longrightarrow>
            (\<exists>deps.
               ts = map (\<lambda>t. if Type.Type t = ''b'' then t\<lparr>Type.DependsUpon := deps (Type.Oid t)\<rparr> else t)
                      types \<and>
               (\<forall>toid. set (deps toid) =
                  {dependencyStr funcInfoMap (pg_proc.oid p) |p nsp t.
                     p \<in> set (pg_proc_rows cat) \<and> nsp \<in> set (pg_namespace_rows cat) \<and>
                     t \<in> set (pg_type_rows cat) \<and> pg_type.oid t = toid \<and> typtype t = ''b'' \<and>
                     type_uses fns cat toid p \<and>
                     (\<exists>c\<in>set (pg_namespace_rows cat). nspname c = ''pg_catalog'') \<and>
                     \<not> builtin_function cat p \<and>
                     pg_namespace.oid nsp = typnamespace t \<and> schemaFilter nsp})))"
proof (intro conjI)
  show "resolve objs (ns @ n # ms) = resolve objs (ns @ ms)"
  proof -
    have "resolve objs (n # ms) = resolve objs ms" using assms by simp
    then show ?thesis
      by (simp only: resolve_append [of objs ns "n # ms"] resolve_append [of objs ns ms])
  qed
  show "resolve objs [n] = Inr []"
    using assms by simp
  show "\<forall>g r d. DependencyResolver DependsUpon objs = Inr g \<and> d \<in> set (deps_of g r) \<longrightarrow>
            QualifiedName d \<noteq> n"
  proof (intro allI impI, elim conjE)
    fix g r d
    assume g: "DependencyResolver DependsUpon objs = Inr g" and d: "d \<in> set (deps_of g r)"
    have "r \<in> set objs"
    proof (rule ccontr)
      assume "r \<notin> set objs"
      then have "deps_of g r = []"
        by (simp add: deps_of_outside DependencyResolver_nodes [OF g])
      with d show False by simp
    qed
    from deps_in_nodes [OF g this] d have "d \<in> set objs" by blast
    show "QualifiedName d \<noteq> n"
    proof
      assume "QualifiedName d = n"
      with \<open>d \<in> set objs\<close> have "d \<in> set (lookup objs n)" by (simp add: lookup_def)
      with assms show False by simp
    qed
  qed
  show "sequence_refs (\<lambda>r. filter (\<lambda>m. m \<noteq> n) (DependsUpon r)) objs = EmissionSequence objs"
  proof -
    have "build_graph (\<lambda>r. filter (\<lambda>m. m \<noteq> n) (DependsUpon r)) objs objs = build_graph DependsUpon objs objs"
      by (rule build_graph_cong) (rule resolve_drop_name [OF assms])
    then show ?thesis
      by (simp add: EmissionSequence_def sequence_refs_def DependencyResolver_def)
  qed
  show "EmissionSequence [TypeA, TypeB] = Inr [Full TypeA, Full TypeB]"
    by code_simp
  show "(\<exists>ts. ConstructBaseTypeDependencies5 fns schemaFilter cat types = Inr ts) \<longleftrightarrow>
            length (filter (\<lambda>c. nspname c = ''pg_catalog'') (pg_namespace_rows cat)) \<le> 1"
    unfolding pgCatalogOid_returns [symmetric] ConstructBaseTypeDependencies5_eq
    by (cases "pgCatalogOid cat") simp_all
  show "\<forall>ts. ConstructBaseTypeDependencies5 fns schemaFilter cat types = Inr ts \<longrightarrow>
            (\<exists>deps.
               ts = map (\<lambda>t. if Type.Type t = ''b'' then t\<lparr>Type.DependsUpon := deps (Type.Oid t)\<rparr> else t)
                      types \<and>
               (\<forall>toid. set (deps toid) =
                  {referencedObject fns p nsp |p nsp t.
                     p \<in> set (pg_proc_rows cat) \<and> nsp \<in> set (pg_namespace_rows cat) \<and>
                     t \<in> set (pg_type_rows cat) \<and> pg_type.oid t = toid \<and> typtype t = ''b'' \<and>
                     type_uses fns cat toid p \<and>
                     (\<exists>c\<in>set (pg_namespace_rows cat). nspname c = ''pg_catalog'') \<and>
                     \<not> builtin_function cat p \<and>
                     pg_namespace.oid nsp = pronamespace p \<and> schemaFilter nsp}))"
  proof (intro allI impI)
    fix ts
    assume ts: "ConstructBaseTypeDependencies5 fns schemaFilter cat types = Inr ts"
    then obtain k where k: "pgCatalogOid cat = Inr k"
      unfolding ConstructBaseTypeDependencies5_eq by (cases "pgCatalogOid cat") simp_all
    let ?deps = "\<lambda>toid. map ReferencedObject
                   (filter (\<lambda>d. Dependency.Oid d = toid) (dependencyResults5 fns schemaFilter cat k))"
    from ts k have "ts = map (\<lambda>t. if Type.Type t = ''b'' then t\<lparr>Type.DependsUpon := ?deps (Type.Oid t)\<rparr> else t)
                      types"
      unfolding ConstructBaseTypeDependencies5_eq by simp
    moreover have "\<forall>toid. set (?deps toid) =
                  {referencedObject fns p nsp |p nsp t.
                     p \<in> set (pg_proc_rows cat) \<and> nsp \<in> set (pg_namespace_rows cat) \<and>
                     t \<in> set (pg_type_rows cat) \<and> pg_type.oid t = toid \<and> typtype t = ''b'' \<and>
                     type_uses fns cat toid p \<and>
                     (\<exists>c\<in>set (pg_namespace_rows cat). nspname c = ''pg_catalog'') \<and>
                     \<not> builtin_function cat p \<and>
                     pg_namespace.oid nsp = pronamespace p \<and> schemaFilter nsp}"
      by (rule allI) (rule dependencyResults5_set [OF k])
    ultimately show "\<exists>deps.
               ts = map (\<lambda>t. if Type.Type t = ''b'' then t\<lparr>Type.DependsUpon := deps (Type.Oid t)\<rparr> else t)
                      types \<and>
               (\<forall>toid. set (deps toid) =
                  {referencedObject fns p nsp |p nsp t.
                     p \<in> set (pg_proc_rows cat) \<and> nsp \<in> set (pg_namespace_rows cat) \<and>
                     t \<in> set (pg_type_rows cat) \<and> pg_type.oid t = toid \<and> typtype t = ''b'' \<and>
                     type_uses fns cat toid p \<and>
                     (\<exists>c\<in>set (pg_namespace_rows cat). nspname c = ''pg_catalog'') \<and>
                     \<not> builtin_function cat p \<and>
                     pg_namespace.oid nsp = pronamespace p \<and> schemaFilter nsp})"
      by (intro exI [of _ ?deps] conjI)
  qed
  show "(\<exists>ts. ConstructBaseTypeDependencies4 fns schemaFilter cat types funcInfoMap = Inr ts) \<longleftrightarrow>
            length (filter (\<lambda>c. nspname c = ''pg_catalog'') (pg_namespace_rows cat)) \<le> 1"
    unfolding pgCatalogOid_returns [symmetric] ConstructBaseTypeDependencies4_eq
    by (cases "pgCatalogOid cat") simp_all
  show "\<forall>ts. ConstructBaseTypeDependencies4 fns schemaFilter cat types funcInfoMap = Inr ts \<longrightarrow>
            (\<exists>deps.
               ts = map (\<lambda>t. if Type.Type t = ''b'' then t\<lparr>Type.DependsUpon := deps (Type.Oid t)\<rparr> else t)
                      types \<and>
               (\<forall>toid. set (deps toid) =
                  {dependencyStr funcInfoMap (pg_proc.oid p) |p nsp t.
                     p \<in> set (pg_proc_rows cat) \<and> nsp \<in> set (pg_namespace_rows cat) \<and>
                     t \<in> set (pg_type_rows cat) \<and> pg_type.oid t = toid \<and> typtype t = ''b'' \<and>
                     type_uses fns cat toid p \<and>
                     (\<exists>c\<in>set (pg_namespace_rows cat). nspname c = ''pg_catalog'') \<and>
                     \<not> builtin_function cat p \<and>
                     pg_namespace.oid nsp = typnamespace t \<and> schemaFilter nsp}))"
  proof (intro allI impI)
    fix ts
    assume ts: "ConstructBaseTypeDependencies4 fns schemaFilter cat types funcInfoMap = Inr ts"
    then obtain k where k: "pgCatalogOid cat = Inr k"
      unfolding ConstructBaseTypeDependencies4_eq by (cases "pgCatalogOid cat") simp_all
    let ?deps = "\<lambda>toid. map (\<lambda>d. dependencyStr funcInfoMap (ReferencedOid d))
                   (filter (\<lambda>d. OidDependency.Oid d = toid) (dependencyResults4 fns schemaFilter cat k))"
    from ts k have "ts = map (\<lambda>t. if Type.Type t = ''b'' then t\<lparr>Type.DependsUpon := ?deps (Type.Oid t)\<rparr> else t)
                      types"
      unfolding ConstructBaseTypeDependencies4_eq by simp
    moreover have "\<forall>toid. set (?deps toid) =
                  {dependencyStr funcInfoMap (pg_proc.oid p) |p nsp t.
                     p \<in> set (pg_proc_rows cat) \<and> nsp \<in> set (pg_namespace_rows cat) \<and>
                     t \<in> set (pg_type_rows cat) \<and> pg_type.oid t = toid \<and> typtype t = ''b'' \<and>
                     type_uses fns cat toid p \<and>
                     (\<exists>c\<in>set (pg_namespace_rows cat). nspname c = ''pg_catalog'') \<and>
                     \<not> builtin_function cat p \<and>
                     pg_namespace.oid nsp = typnamespace t \<and> schemaFilter nsp}"
      by (rule allI) (rule dependencyResults4_set [OF k])
    ultimately show "\<exists>deps.
               ts = map (\<lambda>t. if Type.Type t = ''b'' then t\<lparr>Type.DependsUpon := deps (Type.Oid t)\<rparr> else t)
                      types \<and>
               (\<forall>toid. set (deps toid) =
                  {dependencyStr funcInfoMap (pg_proc.oid p) |p nsp t.
                     p \<in> set (pg_proc_rows cat) \<and> nsp \<in> set (pg_namespace_rows cat) \<and>
                     t \<in> set (pg_type_rows cat) \<and> pg_type.oid t = toid \<and> typtype t = ''b'' \<and>
                     type_uses fns cat toid p \<and>
                     (\<exists>c\<in>set (pg_namespace_rows cat). nspname c = ''pg_catalog'') \<and>
                     \<not> builtin_function cat p \<and>
                     pg_namespace.oid nsp = typnamespace t \<and> schemaFilter nsp})"
      by (intro exI [of _ ?deps] conjI)
  qed
qed

theorem unresolved_references_dropped_witness:
  "lookup [TypeC, FuncX] ''pg_catalog.int4in(cstring)'' = [] \<and>
   resolve [TypeC, FuncX] (DependsUpon TypeC) = Inr [FuncX] \<and>
   sequence_refs (\<lambda>r. filter (\<lambda>m. m \<noteq> ''pg_catalog.int4in(cstring)'') (DependsUpon r)) [TypeC, FuncX]
     = EmissionSequence [TypeC, FuncX] \<and>
   EmissionSequence [TypeC, FuncX] = Inr [Full FuncX, Full TypeC] \<and>
   map (builtin_function dependency_catalog) (pg_proc_rows dependency_catalog) = [True, False] \<and>
   map (type_uses dependency_sample_functions dependency_catalog 1) (pg_proc_rows dependency_catalog)
     = [True, True] \<and>
   ConstructBaseTypeDependencies5 dependency_sample_functions sample_filter dependency_catalog
       [base_type, domain_type]
     = Inr [base_type\<lparr>Type.DependsUpon := [''public.base_fn_in(cstring)'']\<rparr>, domain_type] \<and>
   ConstructBaseTypeDependencies4 dependency_sample_functions sample_filter dependency_catalog
       [base_type, domain_type] funcs4
     = Inr [base_type\<lparr>Type.DependsUpon := [''public.base_fn_in(cstring)'']\<rparr>, domain_type] \<and>
   length (filter (\<lambda>c. nspname c = ''pg_catalog'') (pg_namespace_rows dependency_catalog)) \<le> 1 \<and>
   (\<exists>deps.
      [base_type\<lparr>Type.DependsUpon := [''public.base_fn_in(cstring)'']\<rparr>, domain_type]
        = map (\<lambda>t. if Type.Type t = ''b'' then t\<lparr>Type.DependsUpon := deps (Type.Oid t)\<rparr> else t)
            [base_type, domain_type] \<and>
      (\<forall>toid. set (deps toid) =
         {referencedObject dependency_sample_functions p nsp |p nsp t.
            p \<in> set (pg_proc_rows dependency_catalog) \<and> nsp \<in> set (pg_namespace_rows dependency_catalog) \<and>
            t \<in> set (pg_type_rows dependency_catalog) \<and> pg_type.oid t = toid \<and> typtype t = ''b'' \<and>
            type_uses dependency_sample_functions dependency_catalog toid p \<and>
            (\<exists>c\<in>set (pg_namespace_rows dependency_catalog). nspname c = ''pg_catalog'') \<and>
            \<not> builtin_function dependency_catalog p \<and>
            pg_namespace.oid nsp = pronamespace p \<and> sample_filter nsp}))"
proof -
  have l: "lookup [TypeC, FuncX] ''pg_catalog.int4in(cstring)'' = []" by code_simp
  have r: "resolve [TypeC, FuncX] (DependsUpon TypeC) = Inr [FuncX]" by code_simp
  have e: "EmissionSequence [TypeC, FuncX] = Inr [Full FuncX, Full TypeC]" by code_simp
  have b: "map (builtin_function dependency_catalog) (pg_proc_rows dependency_catalog) = [True, False]"
    by code_simp
  have u: "map (type_uses dependency_sample_functions dependency_catalog 1) (pg_proc_rows dependency_catalog)
     = [True, True]"
    by code_simp
  have c5: "ConstructBaseTypeDependencies5 dependency_sample_functions sample_filter dependency_catalog
       [base_type, domain_type]
     = Inr [base_type\<lparr>Type.DependsUpon := [''public.base_fn_in(cstring)'']\<rparr>, domain_type]"
    by code_simp
  have c4: "ConstructBaseTypeDependencies4 dependency_sample_functions sample_filter dependency_catalog
       [base_type, domain_type] funcs4
     = Inr [base_type\<lparr>Type.DependsUpon := [''public.base_fn_in(cstring)'']\<rparr>, domain_type]"
    by code_simp
  have n1: "length (filter (\<lambda>c. nspname c = ''pg_catalog'') (pg_namespace_rows dependency_catalog)) \<le> 1"
    by code_simp
  note T = unresolved_references_dropped [OF l, where fns = dependency_sample_functions
      and schemaFilter = sample_filter and cat = dependency_catalog
      and types = "[base_type, domain_type]" and funcInfoMap = funcs4]
  note s = T [THEN conjunct2, THEN conjunct2, THEN conjunct2, THEN conjunct1]
  note a = T [THEN conjunct2, THEN conjunct2, THEN conjunct2, THEN conjunct2, THEN conjunct2,
      THEN conjunct2, THEN conjunct1]
  note d = a [rule_format, OF c5]
  show ?thesis
    by (rule conjI [OF l], rule conjI [OF r], rule conjI [OF s], rule conjI [OF e], rule conjI [OF b],
        rule conjI [OF u], rule conjI [OF c5], rule conjI [OF c4], rule conjI [OF n1], rule d)
qed

section \<open>The claim about the type queries\<close>

text \<open>
  C6. On a catalog whose oids are keys, the queries for base and composite types return,
  and no row they return is the row of an array type generated for another type, of a
  type created along with a table, sequence or view, or of an array type over such a
  type. A dependency graph built over candidates taken from these rows has no such type
  among the candidates, neither as a node nor as the target of a dependency.
\<close>

theorem generated_types_excluded:
  assumes "oids_unique cat"
  shows "\<exists>base comp.
           GetBaseTypes before5 fns schemaFilter cat = Inr base \<and>
           GetCompositeTypes before5 fns schemaFilter cat = Inr comp \<and>
           (\<forall>t\<in>set (pg_type_rows cat). excluded_type before5 cat t \<longrightarrow>
              pg_type.oid t \<notin> Type.Oid ` set (base @ comp) \<and>
              (\<forall>cands others g r.
                  Type.Oid ` set cands \<subseteq> Type.Oid ` set (base @ comp) \<and>
                  DependencyResolver DependsUpon (map type_record cands @ others) = Inr g \<and>
                  (r \<in> set (nodes g) \<or> (\<exists>s. r \<in> set (deps_of g s))) \<and> r \<notin> set others
                  \<longrightarrow> Oid r \<noteq> pg_type.oid t))"
proof -
  obtain rows where rows: "getTypeQuery before5 schemaFilter (baseTypeSelect before5 fns) ''b'' cat = Inr rows"
    by (simp add: getTypeQuery_unique [OF assms])
  obtain comp where comp: "GetCompositeTypes before5 fns schemaFilter cat = Inr comp"
    by (simp add: GetCompositeTypes_def getTypeQuery_unique [OF assms])
  from rows obtain base where base: "GetBaseTypes before5 fns schemaFilter cat = Inr base"
    by (simp add: GetBaseTypes_def)
  from GetBaseTypes_Oids [OF base] rows have oids: "Type.Oid ` set base = Type.Oid ` set rows"
    by simp
  have out: "pg_type.oid t \<notin> Type.Oid ` set (base @ comp)"
    if t: "t \<in> set (pg_type_rows cat)" and x: "excluded_type before5 cat t" for t
  proof
    assume "pg_type.oid t \<in> Type.Oid ` set (base @ comp)"
    then have "pg_type.oid t \<in> Type.Oid ` set base \<or> pg_type.oid t \<in> Type.Oid ` set comp"
      by (simp add: image_Un)
    then consider "pg_type.oid t \<in> Type.Oid ` set rows" | "pg_type.oid t \<in> Type.Oid ` set comp"
      unfolding oids by blast
    then show False
    proof cases
      case 1
      then obtain r where "r \<in> set rows" "pg_type.oid t = Type.Oid r" by auto
      from base_rows_not_excluded [OF assms rows this(1) t this(2)] x show False ..
    next
      case 2
      then obtain r where "r \<in> set comp" "pg_type.oid t = Type.Oid r" by auto
      from composite_rows_not_excluded [OF assms comp [unfolded GetCompositeTypes_def] this(1) t this(2)] x
      show False ..
    qed
  qed
  have graph: "Oid r \<noteq> pg_type.oid t"
    if t: "t \<in> set (pg_type_rows cat)" and x: "excluded_type before5 cat t"
      and c: "Type.Oid ` set cands \<subseteq> Type.Oid ` set (base @ comp)"
      and g: "DependencyResolver DependsUpon (map type_record cands @ others) = Inr g"
      and r: "r \<in> set (nodes g) \<or> (\<exists>s. r \<in> set (deps_of g s))" and o: "r \<notin> set others"
    for t cands others g r
  proof -
    note n = DependencyResolver_nodes [OF g]
    from r have "r \<in> set (map type_record cands @ others)"
    proof
      assume "r \<in> set (nodes g)"
      with n show ?thesis by simp
    next
      assume "\<exists>s. r \<in> set (deps_of g s)"
      then obtain s where s: "r \<in> set (deps_of g s)" ..
      have "s \<in> set (nodes g)"
      proof (rule ccontr)
        assume "s \<notin> set (nodes g)"
        from deps_of_outside [OF this] s show False by simp
      qed
      with n have "s \<in> set (map type_record cands @ others)" by simp
      from deps_in_nodes [OF g this] s show ?thesis by blast
    qed
    with o obtain ty where ty: "ty \<in> set cands" "r = type_record ty" by auto
    from ty(2) have "Oid r = Type.Oid ty" by (simp add: type_record_def)
    with ty(1) c have "Oid r \<in> Type.Oid ` set (base @ comp)" by blast
    with out [OF t x] show ?thesis by auto
  qed
  have main: "pg_type.oid t \<notin> Type.Oid ` set (base @ comp) \<and>
        (\<forall>cands others g r.
            Type.Oid ` set cands \<subseteq> Type.Oid ` set (base @ comp) \<and>
            DependencyResolver DependsUpon (map type_record cands @ others) = Inr g \<and>
            (r \<in> set (nodes g) \<or> (\<exists>s. r \<in> set (deps_of g s))) \<and> r \<notin> set others
            \<longrightarrow> Oid r \<noteq> pg_type.oid t)"
    if t: "t \<in> set (pg_type_rows cat)" and x: "excluded_type before5 cat t" for t
  proof (intro conjI allI impI)
    show "pg_type.oid t \<notin> Type.Oid ` set (base @ comp)" by (rule out [OF t x])
  next
    fix cands others g r
    assume h: "Type.Oid ` set cands \<subseteq> Type.Oid ` set (base @ comp) \<and>
            DependencyResolver DependsUpon (map type_record cands @ others) = Inr g \<and>
            (r \<in> set (nodes g) \<or> (\<exists>s. r \<in> set (deps_of g s))) \<and> r \<notin> set others"
    from h have h1: "Type.Oid ` set cands \<subseteq> Type.Oid ` set (base @ comp)" by (rule conjunct1)
    from h have h2: "DependencyResolver DependsUpon (map type_record cands @ others) = Inr g"
      by (rule conjunct2 [THEN conjunct1])
    from h have h3: "r \<in> set (nodes g) \<or> (\<exists>s. r \<in> set (deps_of g s))"
      by (rule conjunct2 [THEN conjunct2, THEN conjunct1])
    from h have h4: "r \<notin> set others"
      by (rule conjunct2 [THEN conjunct2, THEN conjunct2])
    show "Oid r \<noteq> pg_type.oid t" by (rule graph [OF t x h1 h2 h3 h4])
  qed
  show ?thesis
    apply (rule exI [of _ base], rule exI [of _ comp])
    apply (rule conjI [OF base], rule conjI [OF comp])
    apply (rule ballI, rule impI)
    apply (rule main; assumption)
    done
qed

theorem generated_types_excluded_witness:
  "oids_unique sample_catalog \<and>
   map typname (filter (excluded_type False sample_catalog) (pg_type_rows sample_catalog))
     = [''_int4'', ''_money2'', ''tab'', ''_tab'', ''_pair''] \<and>
   map Type.Name (projr (GetBaseTypes False sample_functions sample_filter sample_catalog)) = [''money2''] \<and>
   map Type.Name (projr (GetCompositeTypes False sample_functions sample_filter sample_catalog)) = [''pair''] \<and>
   (\<exists>base comp.
      GetBaseTypes False sample_functions sample_filter sample_catalog = Inr base \<and>
      GetCompositeTypes False sample_functions sample_filter sample_catalog = Inr comp \<and>
      (\<forall>t\<in>set (pg_type_rows sample_catalog). excluded_type False sample_catalog t \<longrightarrow>
              pg_type.oid t \<notin> Type.Oid ` set (base @ comp) \<and>
              (\<forall>cands others g r.
                  Type.Oid ` set cands \<subseteq> Type.Oid ` set (base @ comp) \<and>
                  DependencyResolver DependsUpon (map type_record cands @ others) = Inr g \<and>
                  (r \<in> set (nodes g) \<or> (\<exists>s. r \<in> set (deps_of g s))) \<and> r \<notin> set others
                  \<longrightarrow> Oid r \<noteq> pg_type.oid t)))"
proof -
  have u: "oids_unique sample_catalog" by code_simp
  have x: "map typname (filter (excluded_type False sample_catalog) (pg_type_rows sample_catalog))
     = [''_int4'', ''_money2'', ''tab'', ''_tab'', ''_pair'']"
    by code_simp
  have b: "map Type.Name (projr (GetBaseTypes False sample_functions sample_filter sample_catalog)) = [''money2'']"
    by code_simp
  have c: "map Type.Name (projr (GetCompositeTypes False sample_functions sample_filter sample_catalog)) = [''pair'']"
    by code_simp
  note T = generated_types_excluded [OF u, of False sample_functions sample_filter]
  show ?thesis
    by (rule conjI [OF u], rule conjI [OF x], rule conjI [OF b], rule conjI [OF c], rule T)
qed

end
